theory Spec2Isabelle
  imports Complex_Main
begin

section \<open>Python strings\<close>

text \<open>
  A Python \<open>str\<close> is the list of its code points. A literal of the script is written
  \<open>lit ''...''\<close>: the code points of its (ASCII) characters.
\<close>

type_synonym str = "nat list"

definition lit :: "string \<Rightarrow> str" where
  "lit s = map of_char s"

text \<open>
  The script calls three methods of \<open>str\<close>: \<open>lower()\<close>, \<open>upper()\<close> and \<open>strip()\<close>. They
  belong to Python, not to the script, and what they do follows the Unicode tables: the case
  mappings work on the whole string (a letter may change with its neighbours, and the length
  may change), and \<open>strip()\<close> removes from both ends the code points for which
  \<open>str.isspace\<close> holds. The two case mappings and the whitespace test are therefore
  parameters of the model; every function that reaches one of them takes the record \<open>py\<close>,
  and a property proved for every \<open>py\<close> holds for Python's own.
\<close>

record builtins =
  str_lower :: "str \<Rightarrow> str"
  str_upper :: "str \<Rightarrow> str"
  str_isspace :: "nat \<Rightarrow> bool"

definition lower :: "builtins \<Rightarrow> str \<Rightarrow> str" where
  "lower py s = str_lower py s"

definition upper :: "builtins \<Rightarrow> str \<Rightarrow> str" where
  "upper py s = str_upper py s"

definition strip :: "builtins \<Rightarrow> str \<Rightarrow> str" where
  "strip py s = rev (dropWhile (str_isspace py) (rev (dropWhile (str_isspace py) s)))"

text \<open>\<open>x or d\<close> for an optional string \<open>x\<close>: \<open>None\<close> and the empty string are falsy.\<close>

definition py_or :: "str option \<Rightarrow> str \<Rightarrow> str" where
  "py_or x d = (case x of None \<Rightarrow> d | Some s \<Rightarrow> if s = [] then d else s)"

text \<open>\<open>x or d\<close> for an optional integer \<open>x\<close>: \<open>None\<close> and \<open>0\<close> are falsy.\<close>

definition py_or_int :: "int option \<Rightarrow> int \<Rightarrow> int" where
  "py_or_int x d = (case x of None \<Rightarrow> d | Some n \<Rightarrow> if n = 0 then d else n)"

section \<open>Data model\<close>

text \<open>
  The dictionaries of the script, with the keys the script reads. An amount is the Python
  number that \<open>resp.json()\<close> built, an \<open>int\<close> or a finite \<open>float\<close>. Each of them is
  a rational number, and Python's \<open>==\<close> and \<open>hash\<close> on such numbers agree with equality of
  the rationals, which is all the script does with an amount besides printing it. The values
  \<open>nan\<close> and \<open>inf\<close>, which are no JSON numbers, are not modelled.
\<close>

record tag =
  tag_id :: str
  tag_name :: str

record merchant_obj =
  name :: "str option"

record user_obj =
  user_id :: str
  displayName :: str

text \<open>A record of \<open>allTransactions.results\<close> as the remote sends it.\<close>

record raw_txn =
  r_id :: str
  r_date :: str
  r_amount :: rat
  plaidName :: "str option"
  r_notes :: "str option"
  ownedByUser :: "user_obj option"
  r_merchant :: "merchant_obj option"
  r_tags :: "tag list option"

text \<open>The normalised shape built by \<open>fetch_transactions\<close> and read by \<open>main\<close>.\<close>

record txn =
  txn_id :: str
  date :: str
  amount :: rat
  description :: str
  owner :: str
  merchant :: "merchant_obj option"
  tags :: "tag list"

record page =
  results :: "raw_txn list"
  totalSelectableCount :: "int option"
  totalCount :: "int option"

text \<open>
  The exceptions of the script: \<open>sys.exit\<close> with a message, the HTTP error raised by
  \<open>raise_for_status\<close> (with the status code), and \<open>RuntimeError\<close> (the payload or message
  as text).
\<close>

datatype error = SystemExit str | HTTPError nat | RuntimeError str

section \<open>Configuration\<close>

text \<open>\<open>os.getenv(key, default)\<close> on an environment.\<close>

definition getenv :: "(str \<rightharpoonup> str) \<Rightarrow> str \<Rightarrow> str \<Rightarrow> str" where
  "getenv env k d = (case env k of None \<Rightarrow> d | Some v \<Rightarrow> v)"

text \<open>\<open>DRY_RUN = os.getenv("DRY_RUN", "true").lower() != "false"\<close>\<close>

definition DRY_RUN :: "builtins \<Rightarrow> (str \<rightharpoonup> str) \<Rightarrow> bool" where
  "DRY_RUN py env = (lower py (getenv env (lit ''DRY_RUN'') (lit ''true'')) \<noteq> lit ''false'')"

text \<open>\<open>SYNC_TAG_NAME = os.getenv("SYNC_TAG_NAME", "synced")\<close>\<close>

definition SYNC_TAG_NAME :: "(str \<rightharpoonup> str) \<Rightarrow> str" where
  "SYNC_TAG_NAME env = getenv env (lit ''SYNC_TAG_NAME'') (lit ''synced'')"

definition MAIN_ACCOUNT_ID :: "(str \<rightharpoonup> str) \<Rightarrow> str option" where
  "MAIN_ACCOUNT_ID env = env (lit ''MAIN_ACCOUNT_ID'')"

definition ADDL_ACCOUNT_ID :: "(str \<rightharpoonup> str) \<Rightarrow> str option" where
  "ADDL_ACCOUNT_ID env = env (lit ''ADDL_ACCOUNT_ID'')"

text \<open>\<open>os.getenv("MONARCH_API_TOKEN") or os.getenv("MONARCH_BEARER_TOKEN")\<close>\<close>

definition API_TOKEN :: "(str \<rightharpoonup> str) \<Rightarrow> str option" where
  "API_TOKEN env =
     (case env (lit ''MONARCH_API_TOKEN'') of
        None \<Rightarrow> env (lit ''MONARCH_BEARER_TOKEN'')
      | Some v \<Rightarrow> if v = [] then env (lit ''MONARCH_BEARER_TOKEN'') else Some v)"

section \<open>Transaction fetcher\<close>

text \<open>
  The remote, as \<open>fetch_transactions\<close> reads it through \<open>gql\<close>: the answer to the query
  \<open>Web_GetTransactionsList\<close> for an account, an offset and a limit is either an exception of
  \<open>gql\<close> or the object \<open>allTransactions\<close>.
\<close>

type_synonym txn_source = "str \<Rightarrow> nat \<Rightarrow> nat \<Rightarrow> error + page"

definition normalized :: "raw_txn \<Rightarrow> txn" where
  "normalized t =
     \<lparr> txn_id = r_id t,
       date = r_date t,
       amount = r_amount t,
       description = py_or (plaidName t) (py_or (r_notes t) []),
       owner = (if ownedByUser t = None then lit ''SHARED'' else lit ''INDIVIDUAL''),
       merchant = r_merchant t,
       tags = (case r_tags t of None \<Rightarrow> [] | Some gs \<Rightarrow> gs) \<rparr>"

definition page_total :: "page \<Rightarrow> int" where
  "page_total data = py_or_int (totalSelectableCount data) (py_or_int (totalCount data) 0)"

text \<open>
  The \<open>while True\<close> loop of \<open>fetch_transactions\<close>, with its local variables \<open>offset\<close> and
  \<open>results\<close> as arguments. The loop has no bound of its own, so the model is a partial
  function: \<open>None\<close> is a loop that never ends.
\<close>

partial_function (option) fetch_loop ::
  "txn_source \<Rightarrow> str \<Rightarrow> nat \<Rightarrow> txn list \<Rightarrow> (error + txn list) option" where
  "fetch_loop src account_id offset res =
     (case src account_id offset 200 of
        Inl e \<Rightarrow> Some (Inl e)
      | Inr data \<Rightarrow>
          if page_total data \<le> int (offset + length (results data)) \<or> results data = []
          then Some (Inr (res @ map normalized (results data)))
          else fetch_loop src account_id (offset + length (results data))
                 (res @ map normalized (results data)))"

declare fetch_loop.simps [code]

definition fetch_transactions :: "txn_source \<Rightarrow> str \<Rightarrow> (error + txn list) option" where
  "fetch_transactions src account_id = fetch_loop src account_id 0 []"

text \<open>
  The batches that the loop requests when it runs for \<open>n\<close> rounds from an offset: each
  request starts where the records received so far end.
\<close>

fun batches :: "txn_source \<Rightarrow> str \<Rightarrow> nat \<Rightarrow> nat \<Rightarrow> raw_txn list list" where
  "batches src account_id offset 0 = []"
| "batches src account_id offset (Suc n) =
     (case src account_id offset 200 of
        Inl e \<Rightarrow> []
      | Inr data \<Rightarrow>
          results data # batches src account_id (offset + length (results data)) n)"

section \<open>Label resolver\<close>

text \<open>
  The answer to the query \<open>GetHouseholdTransactionTags\<close> for a limit (the script sends
  \<open>search = None\<close> and \<open>limit = 500\<close>): an exception of \<open>gql\<close>, or the value of
  \<open>householdTransactionTags\<close>, which may be absent.
\<close>

type_synonym tag_source = "nat \<Rightarrow> error + tag list option"

text \<open>The \<open>for t in tags\<close> loop of \<open>ensure_tag_id\<close>: the first tag whose name matches.\<close>

primrec find_tag_id :: "builtins \<Rightarrow> tag list \<Rightarrow> str \<Rightarrow> str option" where
  "find_tag_id py [] nm = None"
| "find_tag_id py (t # ts) nm =
     (if lower py (tag_name t) = lower py nm then Some (tag_id t) else find_tag_id py ts nm)"

definition tag_not_found :: "str \<Rightarrow> str" where
  "tag_not_found nm =
     lit ''Tag '' @ [39] @ nm @ [39] @ lit '' not found in householdTransactionTags. ''
     @ lit ''Please create it in Monarch first (e.g. as a transaction tag) and rerun.''"

definition ensure_tag_id :: "builtins \<Rightarrow> tag_source \<Rightarrow> str \<Rightarrow> error + str" where
  "ensure_tag_id py tsrc nm =
     (case tsrc 500 of
        Inl e \<Rightarrow> Inl e
      | Inr data \<Rightarrow>
          (case find_tag_id py (case data of None \<Rightarrow> [] | Some ts \<Rightarrow> ts) nm of
             Some i \<Rightarrow> Inr i
           | None \<Rightarrow> Inl (RuntimeError (tag_not_found nm))))"

section \<open>Matching key and sync tag\<close>

primrec has_sync_tag_loop :: "builtins \<Rightarrow> tag list \<Rightarrow> str \<Rightarrow> bool" where
  "has_sync_tag_loop py [] sync_tag_name = False"
| "has_sync_tag_loop py (t # ts) sync_tag_name =
     (if lower py (tag_name t) = lower py sync_tag_name then True
      else has_sync_tag_loop py ts sync_tag_name)"

definition has_sync_tag :: "builtins \<Rightarrow> txn \<Rightarrow> str \<Rightarrow> bool" where
  "has_sync_tag py t sync_tag_name = has_sync_tag_loop py (tags t) sync_tag_name"

text \<open>\<open>(txn.get("merchant") or {}).get("name") or ""\<close>\<close>

definition merchant_name :: "txn \<Rightarrow> str" where
  "merchant_name t = (case merchant t of None \<Rightarrow> [] | Some m \<Rightarrow> py_or (name m) [])"

type_synonym key = "str \<times> rat \<times> str"

definition key_for :: "builtins \<Rightarrow> txn \<Rightarrow> key" where
  "key_for py t = (date t, amount t, lower py (strip py (merchant_name t)))"

section \<open>Mutations\<close>

text \<open>
  The two mutations of the script. The remote is a parameter: given the mutations it has
  accepted so far and the next one, it answers with an exception of \<open>gql\<close> or accepts.
  A mutation that raises ends the run; an accepted one is appended to the trace.
\<close>

datatype call = Set_owner_shared str | Update_tags_replace str "str list"

type_synonym remote = "call list \<Rightarrow> call \<Rightarrow> error option"

definition gql_mutation :: "remote \<Rightarrow> call \<Rightarrow> call list \<Rightarrow> error + call list" where
  "gql_mutation rem c tr = (case rem tr c of Some e \<Rightarrow> Inl e | None \<Rightarrow> Inr (tr @ [c]))"

definition set_owner_shared :: "remote \<Rightarrow> str \<Rightarrow> call list \<Rightarrow> error + call list" where
  "set_owner_shared rem i tr = gql_mutation rem (Set_owner_shared i) tr"

definition update_tags_replace ::
  "remote \<Rightarrow> str \<Rightarrow> str list \<Rightarrow> call list \<Rightarrow> error + call list" where
  "update_tags_replace rem i tag_ids tr = gql_mutation rem (Update_tags_replace i tag_ids) tr"

section \<open>Reconciliation (the body of \<open>main\<close> after the fetches)\<close>

type_synonym index = "key \<rightharpoonup> txn list"

text \<open>\<open>main_index.setdefault(k, []).append(t)\<close>\<close>

definition index_add :: "builtins \<Rightarrow> index \<Rightarrow> txn \<Rightarrow> index" where
  "index_add py ix t =
     ix(key_for py t \<mapsto> (case ix (key_for py t) of None \<Rightarrow> [] | Some b \<Rightarrow> b) @ [t])"

definition build_index :: "builtins \<Rightarrow> txn list \<Rightarrow> index" where
  "build_index py main_txns = foldl (index_add py) Map.empty main_txns"

text \<open>\<open>main_index.get(k, [])\<close>\<close>

definition index_get :: "index \<Rightarrow> key \<Rightarrow> txn list" where
  "index_get ix k = (case ix k of None \<Rightarrow> [] | Some b \<Rightarrow> b)"

datatype classification = No_match | Existing_shared | New_shared

text \<open>
  The lines printed in the loop: the classification line with date, amount, merchant name
  and description, the dry-run note, and the line printed after the mutations.
\<close>

datatype log_line =
    Classified classification str rat str str
  | Dry_run_note classification
  | Updated classification

record run_state =
  sent :: "call list"
  out :: "log_line list"
  count_synced_existing_shared :: nat
  count_synced_new_shared :: nat
  count_no_match :: nat

definition init_state :: run_state where
  "init_state =
     \<lparr> sent = [], out = [], count_synced_existing_shared = 0,
       count_synced_new_shared = 0, count_no_match = 0 \<rparr>"

text \<open>The loop \<open>for m in mains: set_owner_shared(m["id"])\<close>.\<close>

fun set_owners :: "remote \<Rightarrow> txn list \<Rightarrow> call list \<Rightarrow> error + call list" where
  "set_owners rem [] tr = Inr tr"
| "set_owners rem (m # ms) tr =
     (case set_owner_shared rem (txn_id m) tr of
        Inl e \<Rightarrow> Inl e
      | Inr tr' \<Rightarrow> set_owners rem ms tr')"

text \<open>
  The guarded label mutation, written twice in \<open>main\<close>: the tag list is replaced by the
  existing tag ids followed by the sync tag id, unless that id is already among them.
\<close>

definition add_sync_tag :: "remote \<Rightarrow> str \<Rightarrow> txn \<Rightarrow> call list \<Rightarrow> error + call list" where
  "add_sync_tag rem sync_tag_id addl tr =
     (if sync_tag_id \<notin> set (map tag_id (tags addl))
      then update_tags_replace rem (txn_id addl) (map tag_id (tags addl) @ [sync_tag_id]) tr
      else Inr tr)"

definition classified :: "classification \<Rightarrow> txn \<Rightarrow> log_line" where
  "classified c addl = Classified c (date addl) (amount addl) (merchant_name addl) (description addl)"

text \<open>One round of the loop \<open>for addl in addl_candidates py\<close>.\<close>

definition loop_body ::
  "builtins \<Rightarrow> bool \<Rightarrow> remote \<Rightarrow> str \<Rightarrow> index \<Rightarrow> run_state \<Rightarrow> txn \<Rightarrow> error + run_state" where
  "loop_body py dry rem sync_tag_id main_index st addl =
     (let mains = index_get main_index (key_for py addl) in
      if mains = [] then
        Inr (st\<lparr> out := out st @ [classified No_match addl],
                 count_no_match := count_no_match st + 1 \<rparr>)
      else if filter (\<lambda>m. upper py (owner m) = lit ''SHARED'') mains \<noteq> [] then
        (if dry then
           Inr (st\<lparr> out := out st @ [classified Existing_shared addl, Dry_run_note Existing_shared],
                    count_synced_existing_shared := count_synced_existing_shared st + 1 \<rparr>)
         else
           (case add_sync_tag rem sync_tag_id addl (sent st) of
              Inl e \<Rightarrow> Inl e
            | Inr tr \<Rightarrow>
                Inr (st\<lparr> sent := tr,
                         out := out st @ [classified Existing_shared addl, Updated Existing_shared],
                         count_synced_existing_shared := count_synced_existing_shared st + 1 \<rparr>)))
      else
        (if dry then
           Inr (st\<lparr> out := out st @ [classified New_shared addl, Dry_run_note New_shared],
                    count_synced_new_shared := count_synced_new_shared st + 1 \<rparr>)
         else
           (case set_owners rem mains (sent st) of
              Inl e \<Rightarrow> Inl e
            | Inr tr1 \<Rightarrow>
                (case add_sync_tag rem sync_tag_id addl tr1 of
                   Inl e \<Rightarrow> Inl e
                 | Inr tr \<Rightarrow>
                     Inr (st\<lparr> sent := tr,
                              out := out st @ [classified New_shared addl, Updated New_shared],
                              count_synced_new_shared := count_synced_new_shared st + 1 \<rparr>)))))"

fun main_loop ::
  "builtins \<Rightarrow> bool \<Rightarrow> remote \<Rightarrow> str \<Rightarrow> index \<Rightarrow> run_state \<Rightarrow> txn list \<Rightarrow> error + run_state" where
  "main_loop py dry rem sync_tag_id main_index st [] = Inr st"
| "main_loop py dry rem sync_tag_id main_index st (addl # rest) =
     (case loop_body py dry rem sync_tag_id main_index st addl of
        Inl e \<Rightarrow> Inl e
      | Inr st' \<Rightarrow> main_loop py dry rem sync_tag_id main_index st' rest)"

definition addl_candidates :: "builtins \<Rightarrow> str \<Rightarrow> txn list \<Rightarrow> txn list" where
  "addl_candidates py sync_tag_name addl_txns =
     filter (\<lambda>t. \<not> has_sync_tag py t sync_tag_name) addl_txns"

text \<open>
  Lines 376 to 438 of \<open>main\<close>: the index, the candidates and the loop. The arguments are the
  values \<open>main\<close> has at that point: the flag \<open>DRY_RUN\<close>, the remote, \<open>SYNC_TAG_NAME\<close>, the
  tag id returned by \<open>ensure_tag_id\<close> and the two fetched lists.
\<close>

definition reconcile ::
  "builtins \<Rightarrow> bool \<Rightarrow> remote \<Rightarrow> str \<Rightarrow> str \<Rightarrow> txn list \<Rightarrow> txn list
     \<Rightarrow> error + run_state" where
  "reconcile py dry rem sync_tag_name sync_tag_id main_txns addl_txns =
     main_loop py dry rem sync_tag_id (build_index py main_txns) init_state
       (addl_candidates py sync_tag_name addl_txns)"

section \<open>The whole of \<open>main\<close>\<close>

text \<open>
  The check for missing variables, the two fetches, the tag lookup and the reconciliation.
  The environment is the one the module constants are read from (after \<open>load_dotenv\<close>).
  A fetch that never ends makes the run never end.
\<close>

text \<open>\<open>sep.join(xs)\<close>\<close>

fun join :: "str \<Rightarrow> str list \<Rightarrow> str" where
  "join sep [] = []"
| "join sep [x] = x"
| "join sep (x # y # ys) = x @ sep @ join sep (y # ys)"

definition missing :: "(str \<rightharpoonup> str) \<Rightarrow> str list" where
  "missing env =
     map fst (filter (\<lambda>(nm, v). v = None \<or> v = Some [])
       [(lit ''MAIN_ACCOUNT_ID'', MAIN_ACCOUNT_ID env),
        (lit ''ADDL_ACCOUNT_ID'', ADDL_ACCOUNT_ID env),
        (lit ''MONARCH_API_TOKEN (or MONARCH_BEARER_TOKEN)'', API_TOKEN env)])"

definition main ::
  "builtins \<Rightarrow> (str \<rightharpoonup> str) \<Rightarrow> txn_source \<Rightarrow> tag_source \<Rightarrow> remote \<Rightarrow> (error + run_state) option" where
  "main py env src tsrc rem =
     (case (missing env, MAIN_ACCOUNT_ID env, ADDL_ACCOUNT_ID env) of
        ([], Some main_id, Some addl_id) \<Rightarrow>
          (case fetch_transactions src main_id of
             None \<Rightarrow> None
           | Some (Inl e) \<Rightarrow> Some (Inl e)
           | Some (Inr main_txns) \<Rightarrow>
               (case fetch_transactions src addl_id of
                  None \<Rightarrow> None
                | Some (Inl e) \<Rightarrow> Some (Inl e)
                | Some (Inr addl_txns) \<Rightarrow>
                    (case ensure_tag_id py tsrc (SYNC_TAG_NAME env) of
                       Inl e \<Rightarrow> Some (Inl e)
                     | Inr sync_tag_id \<Rightarrow>
                         Some (reconcile py (DRY_RUN py env) rem (SYNC_TAG_NAME env) sync_tag_id
                                 main_txns addl_txns))))
      | _ \<Rightarrow>
          Some (Inl (SystemExit
            (lit ''Missing required environment variables: '' @ join (lit '', '') (missing env)))))"


section \<open>Vocabulary of the properties\<close>

text \<open>
  The three outcomes for a candidate as \<open>loop_body\<close> decides them, and the mutations a live
  run sends for it; both are proved below to be what \<open>loop_body\<close> does.
\<close>

definition classify :: "builtins \<Rightarrow> index \<Rightarrow> txn \<Rightarrow> classification" where
  "classify py ix addl =
     (if index_get ix (key_for py addl) = [] then No_match
      else if filter (\<lambda>m. upper py (owner m) = lit ''SHARED'') (index_get ix (key_for py addl)) \<noteq> []
      then Existing_shared else New_shared)"

definition label_calls :: "str \<Rightarrow> txn \<Rightarrow> call list" where
  "label_calls sync_tag_id addl =
     (if sync_tag_id \<in> set (map tag_id (tags addl)) then []
      else [Update_tags_replace (txn_id addl) (map tag_id (tags addl) @ [sync_tag_id])])"

definition planned_calls :: "builtins \<Rightarrow> str \<Rightarrow> index \<Rightarrow> txn \<Rightarrow> call list" where
  "planned_calls py sync_tag_id ix addl =
     (case classify py ix addl of
        No_match \<Rightarrow> []
      | Existing_shared \<Rightarrow> label_calls sync_tag_id addl
      | New_shared \<Rightarrow>
          map (\<lambda>m. Set_owner_shared (txn_id m)) (index_get ix (key_for py addl))
          @ label_calls sync_tag_id addl)"

text \<open>
  The classification lines of a run, and the counter that belongs to an outcome.
\<close>

fun is_classified :: "log_line \<Rightarrow> bool" where
  "is_classified (Classified c d a m s) = True"
| "is_classified _ = False"

definition classifications :: "run_state \<Rightarrow> log_line list" where
  "classifications st = filter is_classified (out st)"

definition count_of :: "classification \<Rightarrow> run_state \<Rightarrow> nat" where
  "count_of c st =
     (case c of No_match \<Rightarrow> count_no_match st
      | Existing_shared \<Rightarrow> count_synced_existing_shared st
      | New_shared \<Rightarrow> count_synced_new_shared st)"


text \<open>
  The rounds of the fetch loop: \<open>received src account_id n\<close> is the number of records
  received in the first \<open>n\<close> rounds, which is the offset of the next request, and
  \<open>stops src account_id offset\<close> says that the round that requests \<open>offset\<close> is the last one:
  the request raises, or the \<open>break\<close> condition holds after it.
\<close>

definition stops :: "txn_source \<Rightarrow> str \<Rightarrow> nat \<Rightarrow> bool" where
  "stops src account_id offset =
     (case src account_id offset 200 of
        Inl e \<Rightarrow> True
      | Inr data \<Rightarrow>
          page_total data \<le> int (offset + length (results data)) \<or> results data = [])"

definition received :: "txn_source \<Rightarrow> str \<Rightarrow> nat \<Rightarrow> nat" where
  "received src account_id n = length (concat (batches src account_id 0 n))"

text \<open>
  The remote ledger after mutations it accepted, as the two mutation functions of the script
  describe their effect. \<open>set_owner_shared\<close> clears the owning user of the transaction with
  the given id, which \<open>fetch_transactions\<close> reads back as the owner \<open>SHARED\<close>;
  \<open>update_tags_replace\<close> replaces the tags of the transaction with the given id by the
  household tags that have the given ids. Nothing else changes.
\<close>

definition replace_tags :: "tag list \<Rightarrow> str list \<Rightarrow> tag list" where
  "replace_tags catalog tag_ids =
     List.map_filter (\<lambda>i. find (\<lambda>t. tag_id t = i) catalog) tag_ids"

definition apply_call :: "tag list \<Rightarrow> call \<Rightarrow> txn \<Rightarrow> txn" where
  "apply_call catalog c t =
     (case c of
        Set_owner_shared i \<Rightarrow> if txn_id t = i then t\<lparr> owner := lit ''SHARED'' \<rparr> else t
      | Update_tags_replace i tag_ids \<Rightarrow>
          if txn_id t = i then t\<lparr> tags := replace_tags catalog tag_ids \<rparr> else t)"

definition txn_after :: "tag list \<Rightarrow> call list \<Rightarrow> txn \<Rightarrow> txn" where
  "txn_after catalog cs t = foldl (\<lambda>t c. apply_call catalog c t) t cs"

definition after_calls :: "tag list \<Rightarrow> call list \<Rightarrow> txn list \<Rightarrow> txn list" where
  "after_calls catalog cs ts = map (txn_after catalog cs) ts"

text \<open>
  A remote that holds a household's tags and honours the limit of the tag query: it sends
  the first \<open>limit\<close> tags.
\<close>

definition limited :: "tag list \<Rightarrow> tag_source" where
  "limited household limit = Inr (Some (take limit household))"

section \<open>The built-ins on ASCII text\<close>

text \<open>
  On ASCII text Python's case mappings change the twenty-six letters, one code point at a
  time, and its whitespace is tab, line feed, vertical tab, form feed, carriage return, the
  four separators 28 to 31, and the space. \<open>ascii_exact py\<close> says that \<open>py\<close> does this on
  ASCII text, whatever it does elsewhere; it is a hypothesis where a property depends on
  the value of a built-in at a literal of the script. \<open>ascii_py\<close> is the instance that
  leaves every other code point alone; the examples, which are ASCII text, are computed
  with it.
\<close>

definition ascii_lower :: "nat \<Rightarrow> nat" where
  "ascii_lower c = (if 65 \<le> c \<and> c \<le> 90 then c + 32 else c)"

definition ascii_upper :: "nat \<Rightarrow> nat" where
  "ascii_upper c = (if 97 \<le> c \<and> c \<le> 122 then c - 32 else c)"

definition ascii_isspace :: "nat \<Rightarrow> bool" where
  "ascii_isspace c = ((9 \<le> c \<and> c \<le> 13) \<or> (28 \<le> c \<and> c \<le> 32))"

definition is_ascii :: "str \<Rightarrow> bool" where
  "is_ascii s = list_all (\<lambda>c. c < 128) s"

definition ascii_exact :: "builtins \<Rightarrow> bool" where
  "ascii_exact py =
     ((\<forall>s. is_ascii s \<longrightarrow> str_lower py s = map ascii_lower s \<and> str_upper py s = map ascii_upper s)
      \<and> (\<forall>c. c < 128 \<longrightarrow> str_isspace py c = ascii_isspace c))"

definition ascii_py :: builtins where
  "ascii_py =
     \<lparr> str_lower = map ascii_lower, str_upper = map ascii_upper, str_isspace = ascii_isspace \<rparr>"


text \<open>A transaction whose merchant name, owner and tag names are ASCII text.\<close>

definition ascii_txn :: "txn \<Rightarrow> bool" where
  "ascii_txn t =
     (is_ascii (merchant_name t) \<and> is_ascii (owner t)
      \<and> list_all (\<lambda>g. is_ascii (tag_name g)) (tags t))"

section \<open>Example inputs\<close>

text \<open>
  A remote that accepts every mutation, and a few transactions: \<open>p\<close> for the main card,
  \<open>a\<close> for the additional card.
\<close>

definition accept_all :: remote where
  "accept_all tr c = None"

definition ex_tag_synced :: tag where
  "ex_tag_synced = \<lparr> tag_id = lit ''t1'', tag_name = lit ''Synced'' \<rparr>"

definition ex_tag_travel :: tag where
  "ex_tag_travel = \<lparr> tag_id = lit ''t7'', tag_name = lit ''travel'' \<rparr>"

definition ex_tag_stale :: tag where
  "ex_tag_stale = \<lparr> tag_id = lit ''t1'', tag_name = lit ''old name'' \<rparr>"

definition ex_txn :: "string \<Rightarrow> string \<Rightarrow> string \<Rightarrow> tag list \<Rightarrow> txn" where
  "ex_txn i own merch ts =
     \<lparr> txn_id = lit i, date = lit ''2024-03-01'', amount = - 25 / 2, description = lit ''AMEX'',
       owner = lit own, merchant = Some \<lparr> name = Some (lit merch) \<rparr>, tags = ts \<rparr>"

definition ex_p1 :: txn where
  "ex_p1 = ex_txn ''p1'' ''INDIVIDUAL'' ''Blue Bottle'' []"

definition ex_p2 :: txn where
  "ex_p2 = ex_txn ''p2'' ''INDIVIDUAL'' ''Blue Bottle'' []"

definition ex_a1 :: txn where
  "ex_a1 = ex_txn ''a1'' ''INDIVIDUAL'' ''  blue BOTTLE '' [ex_tag_travel]"

definition ex_a2 :: txn where
  "ex_a2 = ex_txn ''a2'' ''INDIVIDUAL'' ''Blue Bottle'' [ex_tag_stale]"

definition ex_a3 :: txn where
  "ex_a3 = ex_txn ''a3'' ''INDIVIDUAL'' ''Blue Bottle'' [ex_tag_synced]"

definition ex_p4 :: txn where
  "ex_p4 = ex_txn ''p4'' ''SHARED'' ''Corner Shop'' []"

definition ex_a5 :: txn where
  "ex_a5 = ex_txn ''a5'' ''INDIVIDUAL'' ''corner shop'' []"

definition ex_a6 :: txn where
  "ex_a6 = ex_txn ''a6'' ''INDIVIDUAL'' ''Corner Shop'' [ex_tag_stale]"

definition ex_a7 :: txn where
  "ex_a7 = ex_txn ''a7'' ''INDIVIDUAL'' ''Nowhere'' []"

text \<open>Transactions without a merchant name.\<close>

definition ex_bare :: "string \<Rightarrow> string \<Rightarrow> merchant_obj option \<Rightarrow> txn" where
  "ex_bare i own m =
     \<lparr> txn_id = lit i, date = lit ''2024-03-02'', amount = 40, description = [],
       owner = lit own, merchant = m, tags = [] \<rparr>"

text \<open>
  Two households for the tag query: one with two tags, and one with five hundred other tags
  before the sync tag.
\<close>

definition ex_tag_source :: tag_source where
  "ex_tag_source limit = Inr (Some [ex_tag_travel, ex_tag_synced])"

definition ex_catalog :: "tag list" where
  "ex_catalog = [ex_tag_travel, ex_tag_synced]"

definition filler_tag :: "nat \<Rightarrow> tag" where
  "filler_tag i = \<lparr> tag_id = lit ''f'' @ replicate i 120, tag_name = lit ''note'' @ replicate i 120 \<rparr>"

definition big_household :: "tag list" where
  "big_household = map filler_tag [0..<500] @ [ex_tag_synced]"

text \<open>
  Sources for the fetcher. The first answers every request with one record and a total
  that is two more than the offset asked for. The second holds three records and sends them
  in two pages. The third has one page for each of two accounts.
\<close>

definition ex_raw :: "string \<Rightarrow> raw_txn" where
  "ex_raw i =
     \<lparr> r_id = lit i, r_date = lit ''2024-03-01'', r_amount = - 25 / 2, plaidName = None,
       r_notes = Some (lit ''lunch''), ownedByUser = None, r_merchant = None, r_tags = None \<rparr>"

definition growing_source :: txn_source where
  "growing_source account_id offset limit =
     Inr \<lparr> results = [ex_raw ''r''], totalSelectableCount = Some (int offset + 2),
           totalCount = None \<rparr>"

definition two_page_source :: txn_source where
  "two_page_source account_id offset limit =
     (if offset = 0 then
        Inr \<lparr> results = [ex_raw ''r1'', ex_raw ''r2''], totalSelectableCount = Some 3,
              totalCount = Some 3 \<rparr>
      else if offset = 2 then
        Inr \<lparr> results = [ex_raw ''r3''], totalSelectableCount = None, totalCount = Some 3 \<rparr>
      else Inr \<lparr> results = [], totalSelectableCount = Some 3, totalCount = Some 3 \<rparr>)"

definition ex_source :: txn_source where
  "ex_source account_id offset limit =
     Inr \<lparr> results = (if account_id = lit ''main'' then [ex_raw ''r1''] else [ex_raw ''r2'']),
           totalSelectableCount = Some 1, totalCount = None \<rparr>"

text \<open>An environment with the required variables and a given value of \<open>DRY_RUN\<close>.\<close>

definition ex_env :: "string \<Rightarrow> (str \<rightharpoonup> str)" where
  "ex_env flag =
     [lit ''MAIN_ACCOUNT_ID'' \<mapsto> lit ''main'', lit ''ADDL_ACCOUNT_ID'' \<mapsto> lit ''addl'',
      lit ''MONARCH_API_TOKEN'' \<mapsto> lit ''secret'', lit ''DRY_RUN'' \<mapsto> lit flag]"

section \<open>Properties of the string functions\<close>

lemma lit_Nil: "lit [] = []"
  by (simp add: lit_def)

lemma lit_eq_iff: "lit a = lit b \<longleftrightarrow> a = b"
  unfolding lit_def by (rule inj_map_eq_map) (rule inj_of_char)

lemmas py_defs = lower_def upper_def strip_def ascii_py_def ascii_lower_def ascii_upper_def
  ascii_isspace_def lit_def

lemma ascii_exact_ascii_py: "ascii_exact ascii_py"
  by (simp add: ascii_exact_def ascii_py_def)

text \<open>What \<open>ascii_exact\<close> gives at the literals the script compares with.\<close>

lemma ascii_exact_lower:
  "ascii_exact py \<Longrightarrow> is_ascii s \<Longrightarrow> lower py s = map ascii_lower s"
  by (simp add: ascii_exact_def lower_def)

lemma ascii_exact_upper:
  "ascii_exact py \<Longrightarrow> is_ascii s \<Longrightarrow> upper py s = map ascii_upper s"
  by (simp add: ascii_exact_def upper_def)

lemma ascii_exact_SHARED:
  "ascii_exact py \<Longrightarrow> upper py (lit ''SHARED'') = lit ''SHARED''"
  by (subst ascii_exact_upper) (simp_all add: is_ascii_def lit_def ascii_upper_def)

lemma ascii_exact_true:
  "ascii_exact py \<Longrightarrow> lower py (lit ''true'') \<noteq> lit ''false''"
  by (subst ascii_exact_lower) (simp_all add: is_ascii_def lit_def ascii_lower_def)

lemma ascii_exact_empty:
  "ascii_exact py \<Longrightarrow> lower py (strip py []) = []"
  by (simp add: strip_def ascii_exact_lower is_ascii_def)





section \<open>Properties of the index\<close>

lemma index_get_foldl:
  "index_get (foldl (index_add py) ix ts) k = index_get ix k @ filter (\<lambda>t. key_for py t = k) ts"
  by (induction ts arbitrary: ix) (auto simp: index_get_def index_add_def)

lemma index_get_build_index:
  "index_get (build_index py ts) k = filter (\<lambda>t. key_for py t = k) ts"
  by (simp add: build_index_def index_get_foldl) (simp add: index_get_def)

lemma classify_build_index:
  "classify py (build_index py main_txns) addl =
     (if \<not> (\<exists>m\<in>set main_txns. key_for py m = key_for py addl) then No_match
      else if \<exists>m\<in>set main_txns. key_for py m = key_for py addl \<and> upper py (owner m) = lit ''SHARED''
      then Existing_shared else New_shared)"
  by (auto simp: classify_def index_get_build_index filter_empty_conv)

section \<open>Properties of the loop\<close>

lemma set_owners_Inr:
  "set_owners rem ms tr = Inr tr' \<Longrightarrow> tr' = tr @ map (\<lambda>m. Set_owner_shared (txn_id m)) ms"
proof (induction ms arbitrary: tr)
  case Nil
  then show ?case by simp
next
  case (Cons m ms)
  from Cons.prems have ok: "rem tr (Set_owner_shared (txn_id m)) = None"
    and rest: "set_owners rem ms (tr @ [Set_owner_shared (txn_id m)]) = Inr tr'"
    by (auto simp: set_owner_shared_def gql_mutation_def split: option.splits)
  from Cons.IH [OF rest] show ?case by simp
qed

lemma add_sync_tag_Inr:
  "add_sync_tag rem tid addl tr = Inr tr' \<Longrightarrow> tr' = tr @ label_calls tid addl"
  by (auto simp: add_sync_tag_def label_calls_def update_tags_replace_def gql_mutation_def
           split: if_splits option.splits)

lemma is_classified_classified [simp]: "is_classified (classified c a)"
  by (simp add: classified_def)

lemma loop_body_sent:
  assumes "loop_body py dry rem tid ix st addl = Inr st'"
  shows "sent st' = sent st @ (if dry then [] else planned_calls py tid ix addl)"
  using assms unfolding loop_body_def planned_calls_def classify_def Let_def
  by (auto split: if_splits sum.splits dest!: set_owners_Inr add_sync_tag_Inr)

lemma loop_body_classifications:
  assumes "loop_body py dry rem tid ix st addl = Inr st'"
  shows "classifications st' = classifications st @ [classified (classify py ix addl) addl]"
  using assms unfolding loop_body_def classify_def Let_def classifications_def
  by (auto split: if_splits sum.splits)

lemma loop_body_out:
  assumes "loop_body py dry rem tid ix st addl = Inr st'"
  shows "out st' = out st @ classified (classify py ix addl) addl #
           (if classify py ix addl = No_match then []
            else if dry then [Dry_run_note (classify py ix addl)] else [Updated (classify py ix addl)])"
  using assms unfolding loop_body_def classify_def Let_def
  by (auto split: if_splits sum.splits)

lemma loop_body_count:
  assumes "loop_body py dry rem tid ix st addl = Inr st'"
  shows "count_of c st' = count_of c st + (if classify py ix addl = c then 1 else 0)"
  using assms unfolding loop_body_def classify_def Let_def count_of_def
  by (cases c) (auto split: if_splits sum.splits)

lemma main_loop_append:
  "main_loop py dry rem tid ix st (xs @ ys) =
     (case main_loop py dry rem tid ix st xs of Inl e \<Rightarrow> Inl e
      | Inr st1 \<Rightarrow> main_loop py dry rem tid ix st1 ys)"
  by (induction xs arbitrary: st) (auto split: sum.splits)

lemma main_loop_sent:
  "main_loop py dry rem tid ix st cs = Inr st' \<Longrightarrow>
   sent st' = sent st @ (if dry then [] else concat (map (planned_calls py tid ix) cs))"
  by (induction cs arbitrary: st) (auto split: sum.splits if_splits dest!: loop_body_sent)

lemma main_loop_classifications:
  "main_loop py dry rem tid ix st cs = Inr st' \<Longrightarrow>
   classifications st' = classifications st @ map (\<lambda>a. classified (classify py ix a) a) cs"
  by (induction cs arbitrary: st) (auto split: sum.splits dest!: loop_body_classifications)

lemma main_loop_count:
  "main_loop py dry rem tid ix st cs = Inr st' \<Longrightarrow>
   count_of c st' = count_of c st + length (filter (\<lambda>a. classify py ix a = c) cs)"
  by (induction cs arbitrary: st) (auto split: sum.splits dest!: loop_body_count [where c = c])

lemma loop_body_quiet:
  assumes "dry \<or> planned_calls py tid ix addl = []"
  shows "\<exists>st'. loop_body py dry rem tid ix st addl = Inr st'"
  using assms unfolding loop_body_def planned_calls_def classify_def Let_def label_calls_def
    add_sync_tag_def
  by (auto split: if_splits)

lemma main_loop_quiet:
  assumes "dry \<or> (\<forall>a\<in>set cs. planned_calls py tid ix a = [])"
  shows "\<exists>st'. main_loop py dry rem tid ix st cs = Inr st'"
  using assms
proof (induction cs arbitrary: st)
  case Nil
  then show ?case by simp
next
  case (Cons a cs)
  then obtain st1 where "loop_body py dry rem tid ix st a = Inr st1"
    using loop_body_quiet [of dry py tid ix a rem st] by auto
  with Cons show ?case by auto
qed

lemma main_loop_split:
  assumes "main_loop py dry rem tid ix st (before @ addl # after) = Inr st'"
  obtains st1 st2 where "main_loop py dry rem tid ix st before = Inr st1"
    and "loop_body py dry rem tid ix st1 addl = Inr st2"
    and "main_loop py dry rem tid ix st2 after = Inr st'"
  using assms by (auto simp: main_loop_append split: sum.splits)

lemma count_of_simps:
  "count_of No_match st = count_no_match st"
  "count_of Existing_shared st = count_synced_existing_shared st"
  "count_of New_shared st = count_synced_new_shared st"
  by (simp_all add: count_of_def)

section \<open>Properties of the tag lookup\<close>

lemma find_tag_id_None:
  "find_tag_id py ts nm = None \<longleftrightarrow> (\<forall>t\<in>set ts. lower py (tag_name t) \<noteq> lower py nm)"
  by (induction ts) auto

lemma find_tag_id_Some:
  "find_tag_id py ts nm = Some i \<Longrightarrow>
     \<exists>pre t post. ts = pre @ t # post \<and> (\<forall>u\<in>set pre. lower py (tag_name u) \<noteq> lower py nm)
        \<and> lower py (tag_name t) = lower py nm \<and> i = tag_id t"
proof (induction ts)
  case Nil
  then show ?case by simp
next
  case (Cons t ts)
  show ?case
  proof (cases "lower py (tag_name t) = lower py nm")
    case True
    with Cons.prems have "i = tag_id t" by simp
    with True have "t # ts = [] @ t # ts \<and> (\<forall>u\<in>set []. lower py (tag_name u) \<noteq> lower py nm)
        \<and> lower py (tag_name t) = lower py nm \<and> i = tag_id t" by simp
    then show ?thesis by blast
  next
    case False
    with Cons obtain pre u post where "ts = pre @ u # post"
      "\<forall>v\<in>set pre. lower py (tag_name v) \<noteq> lower py nm" "lower py (tag_name u) = lower py nm" "i = tag_id u"
      by auto
    with False have "t # ts = (t # pre) @ u # post \<and> (\<forall>v\<in>set (t # pre). lower py (tag_name v) \<noteq> lower py nm)
        \<and> lower py (tag_name u) = lower py nm \<and> i = tag_id u" by simp
    then show ?thesis by blast
  qed
qed

section \<open>Properties of the fetch loop\<close>

lemma fetch_loop_stop:
  assumes "stops src account_id offset"
  shows "fetch_loop src account_id offset res =
     Some (case src account_id offset 200 of
             Inl e \<Rightarrow> Inl e
           | Inr data \<Rightarrow> Inr (res @ map normalized (results data)))"
  using assms by (subst fetch_loop.simps) (auto simp: stops_def split: sum.splits)

lemma fetch_loop_continue:
  assumes "\<not> stops src account_id offset" and "src account_id offset 200 = Inr data"
  shows "fetch_loop src account_id offset res =
     fetch_loop src account_id (offset + length (results data))
       (res @ map normalized (results data))"
  using assms by (subst fetch_loop.simps) (auto simp: stops_def split: sum.splits)

lemma not_stops_Inr:
  "\<not> stops src account_id offset \<Longrightarrow> \<exists>data. src account_id offset 200 = Inr data
      \<and> results data \<noteq> [] \<and> int (offset + length (results data)) < page_total data"
  by (auto simp: stops_def split: sum.splits)

text \<open>The loop from an offset, after \<open>n\<close> rounds that do not stop and one that does.\<close>

lemma fetch_loop_rounds:
  assumes "stops src account_id (offset + length (concat (batches src account_id offset n)))"
    and "\<forall>k<n. \<not> stops src account_id (offset + length (concat (batches src account_id offset k)))"
  shows "fetch_loop src account_id offset res =
     Some (case src account_id (offset + length (concat (batches src account_id offset n))) 200 of
             Inl e \<Rightarrow> Inl e
           | Inr data \<Rightarrow>
               Inr (res @ map normalized (concat (batches src account_id offset (Suc n)))))"
  using assms
proof (induction n arbitrary: offset res)
  case 0
  then have s: "stops src account_id offset" by simp
  show ?case
    by (simp add: fetch_loop_stop [OF s] split: sum.splits)
next
  case (Suc n)
  from Suc.prems(2) have "\<not> stops src account_id offset" by force
  then obtain data where d: "src account_id offset 200 = Inr data"
    and ns: "\<not> stops src account_id offset"
    using not_stops_Inr by blast
  let ?o = "offset + length (results data)"
  have a: "stops src account_id (?o + length (concat (batches src account_id ?o n)))"
    using Suc.prems(1) d by (simp add: add.assoc)
  have b: "\<forall>k<n. \<not> stops src account_id (?o + length (concat (batches src account_id ?o k)))"
  proof (intro allI impI)
    fix k assume "k < n"
    then have "Suc k < Suc n" by simp
    with Suc.prems(2) have "\<not> stops src account_id
        (offset + length (concat (batches src account_id offset (Suc k))))"
      by blast
    then show "\<not> stops src account_id (?o + length (concat (batches src account_id ?o k)))"
      using d by (simp add: add.assoc)
  qed
  have "fetch_loop src account_id offset res
      = fetch_loop src account_id ?o (res @ map normalized (results data))"
    by (rule fetch_loop_continue [OF ns d])
  also note Suc.IH [OF a b, of "res @ map normalized (results data)"]
  finally show ?case
    using d by (simp add: add.assoc split: sum.splits)
qed

text \<open>With bounded totals some round stops.\<close>

lemma bounded_stops:
  assumes bounded: "\<forall>off data. src account_id off 200 = Inr data \<longrightarrow> page_total data \<le> bound"
  shows "\<exists>n. stops src account_id (offset + length (concat (batches src account_id offset n)))
      \<and> (\<forall>k<n. \<not> stops src account_id (offset + length (concat (batches src account_id offset k))))"
proof (induction "nat (bound - int offset)" arbitrary: offset rule: less_induct)
  case less
  show ?case
  proof (cases "stops src account_id offset")
    case True
    then have "stops src account_id (offset + length (concat (batches src account_id offset 0)))
      \<and> (\<forall>k<0. \<not> stops src account_id (offset + length (concat (batches src account_id offset k))))"
      by simp
    then show ?thesis by blast
  next
    case False
    then obtain data where d: "src account_id offset 200 = Inr data"
      and ne: "results data \<noteq> []"
      and lt: "int (offset + length (results data)) < page_total data"
      using not_stops_Inr by blast
    let ?o = "offset + length (results data)"
    have "page_total data \<le> bound" using bounded d by blast
    with lt ne have "nat (bound - int ?o) < nat (bound - int offset)"
      by (cases "results data") auto
    from less [OF this] obtain n
      where a: "stops src account_id (?o + length (concat (batches src account_id ?o n)))"
        and b: "\<forall>k<n. \<not> stops src account_id (?o + length (concat (batches src account_id ?o k)))"
      by blast
    have "stops src account_id (offset + length (concat (batches src account_id offset (Suc n))))"
      using a d by (simp add: add.assoc)
    moreover have "\<not> stops src account_id
        (offset + length (concat (batches src account_id offset k)))" if "k < Suc n" for k
    proof (cases k)
      case 0
      with False show ?thesis by simp
    next
      case (Suc j)
      with that b have "\<not> stops src account_id (?o + length (concat (batches src account_id ?o j)))"
        by simp
      with Suc d show ?thesis by (simp add: add.assoc)
    qed
    ultimately show ?thesis by blast
  qed
qed

text \<open>A result of the loop is never a result against the growing source.\<close>

lemma fetch_loop_growing:
  assumes "fetch_loop src account_id offset res = Some y"
  shows "src \<noteq> growing_source"
proof (rule fetch_loop.raw_induct [where P = "\<lambda>s a off r y. s \<noteq> growing_source", OF _ assms])
  fix f :: "txn_source \<Rightarrow> str \<Rightarrow> nat \<Rightarrow> txn list \<Rightarrow> (error + txn list) option"
    and s a off r y
  assume IH: "\<And>s a off r y. f s a off r = Some y \<Longrightarrow> s \<noteq> growing_source"
    and step: "(case s a off 200 of
        Inl e \<Rightarrow> Some (Inl e)
      | Inr data \<Rightarrow>
          if page_total data \<le> int (off + length (results data)) \<or> results data = []
          then Some (Inr (r @ map normalized (results data)))
          else f s a (off + length (results data)) (r @ map normalized (results data))) = Some y"
  show "s \<noteq> growing_source"
  proof
    assume g: "s = growing_source"
    with step have "f growing_source a (off + 1) (r @ [normalized (ex_raw ''r'')]) = Some y"
      by (simp add: growing_source_def page_total_def py_or_int_def)
    from IH [OF this] show False by simp
  qed
qed

section \<open>Properties of the ledger after a run\<close>

lemma has_sync_tag_loop_iff:
  "has_sync_tag_loop py ts nm \<longleftrightarrow> (\<exists>g\<in>set ts. lower py (tag_name g) = lower py nm)"
  by (induction ts) auto

lemma has_sync_tag_iff:
  "has_sync_tag py t nm \<longleftrightarrow> (\<exists>g\<in>set (tags t). lower py (tag_name g) = lower py nm)"
  by (simp add: has_sync_tag_def has_sync_tag_loop_iff)

lemma apply_call_fields:
  "txn_id (apply_call C c t) = txn_id t" "key_for py (apply_call C c t) = key_for py t"
  by (auto simp: apply_call_def key_for_def merchant_name_def split: call.splits)

lemma txn_after_Nil: "txn_after C [] t = t"
  by (simp add: txn_after_def)

lemma txn_after_Cons: "txn_after C (c # cs) t = txn_after C cs (apply_call C c t)"
  by (simp add: txn_after_def)

lemma txn_after_fields:
  "txn_id (txn_after C cs t) = txn_id t" "key_for py (txn_after C cs t) = key_for py t"
  by (induction cs arbitrary: t) (simp_all add: txn_after_Nil txn_after_Cons apply_call_fields)

lemma apply_call_shared:
  "upper py (lit ''SHARED'') = lit ''SHARED'' \<Longrightarrow> upper py (owner t) = lit ''SHARED''
     \<Longrightarrow> upper py (owner (apply_call C c t)) = lit ''SHARED''"
  by (auto simp: apply_call_def split: call.splits)

lemma txn_after_shared:
  "upper py (lit ''SHARED'') = lit ''SHARED'' \<Longrightarrow> upper py (owner t) = lit ''SHARED''
     \<Longrightarrow> upper py (owner (txn_after C cs t)) = lit ''SHARED''"
  by (induction cs arbitrary: t) (simp_all add: txn_after_Nil txn_after_Cons apply_call_shared)

lemma txn_after_owner_set:
  assumes sh: "upper py (lit ''SHARED'') = lit ''SHARED''"
  shows "Set_owner_shared (txn_id t) \<in> set cs
     \<Longrightarrow> upper py (owner (txn_after C cs t)) = lit ''SHARED''"
proof (induction cs arbitrary: t)
  case Nil
  then show ?case by simp
next
  case (Cons c cs)
  show ?case
  proof (cases "c = Set_owner_shared (txn_id t)")
    case True
    then have "upper py (owner (apply_call C c t)) = lit ''SHARED''"
      by (simp add: apply_call_def sh)
    then show ?thesis by (simp add: txn_after_Cons txn_after_shared [OF sh])
  next
    case False
    with Cons.prems have "Set_owner_shared (txn_id (apply_call C c t)) \<in> set cs"
      by (simp add: apply_call_fields)
    from Cons.IH [OF this] show ?thesis by (simp add: txn_after_Cons)
  qed
qed

lemma txn_after_tags:
  assumes good: "\<forall>i ids. Update_tags_replace i ids \<in> set cs \<longrightarrow>
      has_sync_tag_loop py (replace_tags C ids) nm"
  shows "(tags (txn_after C cs t) = tags t \<and> (\<forall>ids. Update_tags_replace (txn_id t) ids \<notin> set cs))
      \<or> has_sync_tag py (txn_after C cs t) nm"
  using good
proof (induction cs arbitrary: t)
  case Nil
  then show ?case by (simp add: txn_after_Nil)
next
  case (Cons c cs)
  let ?t1 = "apply_call C c t"
  from Cons.prems have good': "\<forall>i ids. Update_tags_replace i ids \<in> set cs \<longrightarrow>
      has_sync_tag_loop py (replace_tags C ids) nm"
    by simp
  from Cons.IH [OF good', of ?t1]
  consider (same) "tags (txn_after C cs ?t1) = tags ?t1"
      "\<forall>ids. Update_tags_replace (txn_id t) ids \<notin> set cs"
    | (sync) "has_sync_tag py (txn_after C cs ?t1) nm"
    by (auto simp: apply_call_fields)
  then show ?case
  proof cases
    case sync
    then show ?thesis by (simp add: txn_after_Cons)
  next
    case same
    show ?thesis
    proof (cases "\<exists>ids. c = Update_tags_replace (txn_id t) ids")
      case True
      then obtain ids where c: "c = Update_tags_replace (txn_id t) ids" by blast
      with Cons.prems have "has_sync_tag_loop py (replace_tags C ids) nm" by simp
      moreover have "tags ?t1 = replace_tags C ids"
        using c by (simp add: apply_call_def)
      ultimately have "has_sync_tag py (txn_after C cs ?t1) nm"
        using same(1) by (simp add: has_sync_tag_def)
      then show ?thesis by (simp add: txn_after_Cons)
    next
      case False
      then have "tags ?t1 = tags t"
        by (auto simp: apply_call_def split: call.splits)
      with same False show ?thesis
        by (auto simp: txn_after_Cons)
    qed
  qed
qed

lemma find_tag_id_mem:
  "find_tag_id py C nm = Some tid \<Longrightarrow>
     \<exists>g\<in>set C. tag_id g = tid \<and> lower py (tag_name g) = lower py nm"
  by (induction C) (auto split: if_splits)

lemma map_filter_mem:
  "x \<in> set xs \<Longrightarrow> f x = Some y \<Longrightarrow> y \<in> set (List.map_filter f xs)"
  by (induction xs) (auto split: option.splits)

lemma replace_tags_sync:
  assumes d: "distinct (map tag_id C)" and f: "find_tag_id py C nm = Some tid"
    and m: "tid \<in> set ids"
  shows "has_sync_tag_loop py (replace_tags C ids) nm"
proof -
  from find_tag_id_mem [OF f] obtain g
    where g: "g \<in> set C" "tag_id g = tid" "lower py (tag_name g) = lower py nm"
    by blast
  then obtain g' where g': "find (\<lambda>t. tag_id t = tid) C = Some g'"
    by (cases "find (\<lambda>t. tag_id t = tid) C") (auto simp: find_None_iff)
  then have "g' \<in> set C" "tag_id g' = tid"
    by (auto simp: find_Some_iff in_set_conv_nth)
  with g d have "g' = g"
    by (metis distinct_map inj_onD)
  with g' m have "g \<in> set (replace_tags C ids)"
    unfolding replace_tags_def by (intro map_filter_mem [of tid]) simp_all
  with g(3) show ?thesis
    by (auto simp: has_sync_tag_loop_iff)
qed

lemma planned_calls_updates:
  "Update_tags_replace i ids \<in> set (planned_calls py tid ix a) \<Longrightarrow> tid \<in> set ids"
  by (auto simp: planned_calls_def label_calls_def split: classification.splits if_splits)

lemma index_get_after:
  "index_get (build_index py (after_calls C cs P)) k
     = map (txn_after C cs) (index_get (build_index py P) k)"
  by (simp add: index_get_build_index after_calls_def filter_map comp_def txn_after_fields)

text \<open>After a live run that completed, no candidate of the next run has a mutation left.\<close>

lemma rerun_quiet:
  assumes sh: "upper py (lit ''SHARED'') = lit ''SHARED''"
    and d: "distinct (map tag_id C)" and f: "find_tag_id py C nm = Some tid"
    and cs: "cs = concat (map (planned_calls py tid (build_index py P)) (addl_candidates py nm A))"
    and a': "a' \<in> set (addl_candidates py nm (after_calls C cs A))"
  shows "planned_calls py tid (build_index py (after_calls C cs P)) a' = []"
proof -
  let ?ix = "build_index py P" and ?ix' = "build_index py (after_calls C cs P)"
  let ?F = "txn_after C cs"
  from a' obtain a where a: "a \<in> set A" "a' = ?F a" and ns: "\<not> has_sync_tag py (?F a) nm"
    by (auto simp: addl_candidates_def after_calls_def)
  have good: "\<forall>i ids. Update_tags_replace i ids \<in> set cs \<longrightarrow>
      has_sync_tag_loop py (replace_tags C ids) nm"
    using replace_tags_sync [OF d f] planned_calls_updates unfolding cs by fastforce
  from txn_after_tags [OF good, of a] ns
  have tg: "tags (?F a) = tags a" and nu: "\<forall>ids. Update_tags_replace (txn_id a) ids \<notin> set cs"
    by auto
  from ns tg have "\<not> has_sync_tag py a nm" by (simp add: has_sync_tag_def)
  with a(1) have cand: "a \<in> set (addl_candidates py nm A)"
    by (simp add: addl_candidates_def)
  then have sub: "set (planned_calls py tid ?ix a) \<subseteq> set cs"
    unfolding cs by auto
  have lab': "label_calls tid (?F a) = label_calls tid a"
    by (simp add: label_calls_def tg txn_after_fields)
  have bucket': "index_get ?ix' (key_for py (?F a)) = map ?F (index_get ?ix (key_for py a))"
    by (simp add: index_get_after txn_after_fields)
  show ?thesis
  proof (cases "classify py ?ix a")
    case No_match
    then have "index_get ?ix (key_for py a) = []"
      by (auto simp: classify_def split: if_splits)
    then show ?thesis
      by (simp add: a(2) planned_calls_def classify_def bucket')
  next
    case Existing_shared
    then have "set (label_calls tid a) \<subseteq> set cs"
      using sub by (simp add: planned_calls_def)
    with nu have lab: "label_calls tid a = []"
      by (auto simp: label_calls_def split: if_splits)
    from Existing_shared obtain m where "m \<in> set (index_get ?ix (key_for py a))"
      "upper py (owner m) = lit ''SHARED''"
      by (auto simp: classify_def filter_empty_conv split: if_splits)
    then have "?F m \<in> set (index_get ?ix' (key_for py (?F a)))" "upper py (owner (?F m)) = lit ''SHARED''"
      by (auto simp: bucket' txn_after_shared [OF sh])
    then have "classify py ?ix' (?F a) = Existing_shared"
      by (auto simp: classify_def filter_empty_conv)
    then show ?thesis
      by (simp add: a(2) planned_calls_def lab' lab)
  next
    case New_shared
    then have pc: "planned_calls py tid ?ix a
        = map (\<lambda>m. Set_owner_shared (txn_id m)) (index_get ?ix (key_for py a)) @ label_calls tid a"
      by (simp add: planned_calls_def)
    with sub nu have lab: "label_calls tid a = []"
      by (auto simp: label_calls_def split: if_splits)
    from New_shared obtain m where m: "m \<in> set (index_get ?ix (key_for py a))"
      by (cases "index_get ?ix (key_for py a)") (auto simp: classify_def split: if_splits)
    with pc sub have "Set_owner_shared (txn_id m) \<in> set cs" by auto
    then have "upper py (owner (?F m)) = lit ''SHARED''" by (rule txn_after_owner_set [OF sh])
    moreover from m have "?F m \<in> set (index_get ?ix' (key_for py (?F a)))"
      by (simp add: bucket')
    ultimately have "classify py ?ix' (?F a) = Existing_shared"
      by (auto simp: classify_def filter_empty_conv)
    then show ?thesis
      by (simp add: a(2) planned_calls_def lab' lab)
  qed
qed

section \<open>Properties of \<open>main\<close>\<close>

text \<open>
  When no variable is missing both account ids are set, so the last branch of \<open>main\<close> is
  the exit for missing variables.
\<close>

lemma missing_Nil:
  assumes "missing env = []"
  shows "\<exists>main_id addl_id. MAIN_ACCOUNT_ID env = Some main_id \<and> main_id \<noteq> []
      \<and> ADDL_ACCOUNT_ID env = Some addl_id \<and> addl_id \<noteq> []"
  using assms by (auto simp: missing_def split: if_splits)

lemma reconcile_dry_sent:
  "reconcile py True rem nm tid P A = Inr st \<Longrightarrow> sent st = []"
  using main_loop_sent [of py True rem tid "build_index py P" init_state "addl_candidates py nm A" st]
  by (simp add: reconcile_def init_state_def)

lemma fetch_ex_source:
  "fetch_transactions ex_source account_id
     = Some (Inr (map normalized (if account_id = lit ''main'' then [ex_raw ''r1''] else [ex_raw ''r2''])))"
proof -
  have "stops ex_source account_id 0"
    by (simp add: stops_def ex_source_def page_total_def py_or_int_def)
  from fetch_loop_stop [OF this, of "[]"] show ?thesis
    by (simp add: fetch_transactions_def ex_source_def)
qed

section \<open>One round of a completed run\<close>

text \<open>
  A candidate whose key is the key of a main-card transaction is a match in the run: its
  round counts no miss, its outcome is decided by the owners in the bucket, and in a live
  run that sets owners the main-card transaction is among them.
\<close>

lemma matched_in_run:
  assumes run: "reconcile py dry rem sync_tag_name sync_tag_id main_txns addl_txns = Inr st"
    and cands: "addl_candidates py sync_tag_name addl_txns = before @ addl # after"
    and p: "p \<in> set main_txns" and k: "key_for py p = key_for py addl"
  shows "\<exists>st1 st2 c.
      main_loop py dry rem sync_tag_id (build_index py main_txns) init_state before = Inr st1
    \<and> loop_body py dry rem sync_tag_id (build_index py main_txns) st1 addl = Inr st2
    \<and> main_loop py dry rem sync_tag_id (build_index py main_txns) st2 after = Inr st
    \<and> p \<in> set (index_get (build_index py main_txns) (key_for py addl))
    \<and> c = (if \<exists>m\<in>set main_txns. key_for py m = key_for py addl
                  \<and> upper py (owner m) = lit ''SHARED''
             then Existing_shared else New_shared)
    \<and> out st2 = out st1 @ [classified c addl, if dry then Dry_run_note c else Updated c]
    \<and> count_no_match st2 = count_no_match st1
    \<and> count_synced_existing_shared st2 + count_synced_new_shared st2
        = count_synced_existing_shared st1 + count_synced_new_shared st1 + 1
    \<and> (c = New_shared \<and> \<not> dry \<longrightarrow> Set_owner_shared (txn_id p) \<in> set (sent st2))"
proof -
  let ?ix = "build_index py main_txns"
  from run cands obtain st1 st2
    where a: "main_loop py dry rem sync_tag_id ?ix init_state before = Inr st1"
      and b: "loop_body py dry rem sync_tag_id ?ix st1 addl = Inr st2"
      and c: "main_loop py dry rem sync_tag_id ?ix st2 after = Inr st"
    unfolding reconcile_def by (auto elim: main_loop_split)
  define c where "c = (if \<exists>m\<in>set main_txns. key_for py m = key_for py addl
                  \<and> upper py (owner m) = lit ''SHARED''
             then Existing_shared else New_shared)"
  have mem: "p \<in> set (index_get ?ix (key_for py addl))"
    using p k by (simp add: index_get_build_index)
  have cl: "classify py ?ix addl = c"
    using p k by (auto simp: classify_build_index c_def)
  have nm: "c \<noteq> No_match" by (simp add: c_def)
  have o: "out st2 = out st1 @ [classified c addl, if dry then Dry_run_note c else Updated c]"
    using loop_body_out [OF b] nm by (simp add: cl)
  have n: "count_no_match st2 = count_no_match st1"
    using loop_body_count [OF b, of No_match] nm by (simp add: cl count_of_simps)
  have e: "count_synced_existing_shared st2 + count_synced_new_shared st2
        = count_synced_existing_shared st1 + count_synced_new_shared st1 + 1"
    using loop_body_count [OF b, of Existing_shared] loop_body_count [OF b, of New_shared]
    by (simp add: cl count_of_simps c_def)
  have s: "Set_owner_shared (txn_id p) \<in> set (sent st2)" if "c = New_shared" "\<not> dry"
    using loop_body_sent [OF b] that mem by (auto simp: planned_calls_def cl)
  from a b c mem o n e s c_def show ?thesis by blast
qed

section \<open>Computing the examples\<close>

lemmas ex_defs = lit_eq_iff accept_all_def ex_tag_synced_def ex_tag_travel_def ex_txn_def
  ex_p1_def ex_p2_def ex_a1_def ex_a3_def ex_p4_def ex_a5_def ex_a7_def

lemmas run_defs = reconcile_def addl_candidates_def has_sync_tag_def loop_body_def
  index_get_build_index key_for_def merchant_name_def py_or_def py_defs
  add_sync_tag_def update_tags_replace_def set_owner_shared_def
  gql_mutation_def classified_def init_state_def

lemmas src_defs = two_page_source_def growing_source_def ex_raw_def stops_def received_def
  page_total_def py_or_int_def

section \<open>ASCII inputs\<close>

text \<open>
  On ASCII text every \<open>py\<close> that is exact on ASCII computes what \<open>ascii_py\<close> computes, so
  a run, or a tag lookup, on ASCII inputs is the same for all of them.
\<close>

lemma strip_ascii:
  assumes ex: "ascii_exact py" and s: "is_ascii s"
  shows "strip py s = strip ascii_py s" and "is_ascii (strip py s)"
proof -
  have sp: "str_isspace py c = str_isspace ascii_py c" if "c < 128" for c
    using ex that by (simp add: ascii_exact_def ascii_py_def)
  have a: "\<forall>c\<in>set s. c < 128" using s by (simp add: is_ascii_def list_all_iff)
  have 1: "dropWhile (str_isspace py) s = dropWhile (str_isspace ascii_py) s"
    using a by (intro dropWhile_cong) (auto simp: sp)
  have b: "\<forall>c\<in>set (rev (dropWhile (str_isspace ascii_py) s)). c < 128"
    using a by (auto dest: set_dropWhileD)
  have 2: "dropWhile (str_isspace py) (rev (dropWhile (str_isspace ascii_py) s))
      = dropWhile (str_isspace ascii_py) (rev (dropWhile (str_isspace ascii_py) s))"
    using b by (intro dropWhile_cong) (auto simp: sp)
  show e: "strip py s = strip ascii_py s"
    by (simp add: strip_def 1 2)
  have "set (strip ascii_py s) \<subseteq> set s"
    unfolding strip_def by (auto dest!: set_dropWhileD)
  with a show "is_ascii (strip py s)"
    by (auto simp: e is_ascii_def list_all_iff)
qed

lemma lower_ascii:
  "ascii_exact py \<Longrightarrow> is_ascii s \<Longrightarrow> lower py s = lower ascii_py s"
  by (simp add: ascii_exact_lower) (simp add: lower_def ascii_py_def)

lemma upper_ascii:
  "ascii_exact py \<Longrightarrow> is_ascii s \<Longrightarrow> upper py s = upper ascii_py s"
  by (simp add: ascii_exact_upper) (simp add: upper_def ascii_py_def)

lemma key_for_ascii:
  "ascii_exact py \<Longrightarrow> ascii_txn t \<Longrightarrow> key_for py t = key_for ascii_py t"
proof -
  assume ex: "ascii_exact py" and t: "ascii_txn t"
  then have n: "is_ascii (merchant_name t)" by (simp add: ascii_txn_def)
  have "lower py (strip py (merchant_name t)) = lower ascii_py (strip py (merchant_name t))"
    by (rule lower_ascii [OF ex strip_ascii(2) [OF ex n]])
  then show ?thesis
    by (simp add: key_for_def strip_ascii(1) [OF ex n])
qed

lemma has_sync_tag_ascii:
  assumes "ascii_exact py" and "ascii_txn t" and "is_ascii nm"
  shows "has_sync_tag py t nm = has_sync_tag ascii_py t nm"
  using assms by (auto simp: has_sync_tag_iff ascii_txn_def list_all_iff lower_ascii)

lemma find_tag_id_ascii:
  assumes "ascii_exact py" and "list_all (\<lambda>g. is_ascii (tag_name g)) ts" and "is_ascii nm"
  shows "find_tag_id py ts nm = find_tag_id ascii_py ts nm"
  using assms by (induction ts) (simp_all add: lower_ascii)

lemma loop_body_ascii:
  assumes ex: "ascii_exact py" and P: "list_all ascii_txn P" and a: "ascii_txn a"
  shows "loop_body py dry rem tid (build_index py P) st a
       = loop_body ascii_py dry rem tid (build_index ascii_py P) st a"
proof -
  have k: "key_for py m = key_for ascii_py m" if "m \<in> set P" for m
    using that P ex by (simp add: key_for_ascii list_all_iff)
  have 1: "index_get (build_index py P) (key_for py a)
      = index_get (build_index ascii_py P) (key_for ascii_py a)"
    unfolding index_get_build_index key_for_ascii [OF ex a]
    by (rule filter_cong) (simp_all add: k)
  have 2: "filter (\<lambda>m. upper py (owner m) = lit ''SHARED'') ms
      = filter (\<lambda>m. upper ascii_py (owner m) = lit ''SHARED'') ms" if "set ms \<subseteq> set P" for ms
    using that P ex by (intro filter_cong) (auto simp: upper_ascii ascii_txn_def list_all_iff)
  have 3: "set (index_get (build_index ascii_py P) k) \<subseteq> set P" for k
    by (auto simp: index_get_build_index)
  show ?thesis
    unfolding loop_body_def Let_def 1 by (simp only: 2 [OF 3])
qed

lemma main_loop_ascii:
  assumes ex: "ascii_exact py" and P: "list_all ascii_txn P"
  shows "list_all ascii_txn cs \<Longrightarrow>
     main_loop py dry rem tid (build_index py P) st cs
       = main_loop ascii_py dry rem tid (build_index ascii_py P) st cs"
  by (induction cs arbitrary: st) (simp_all add: loop_body_ascii [OF ex P] split: sum.splits)

lemma reconcile_ascii:
  assumes ex: "ascii_exact py" and P: "list_all ascii_txn P" and A: "list_all ascii_txn A"
    and nm: "is_ascii nm"
  shows "reconcile py dry rem nm tid P A = reconcile ascii_py dry rem nm tid P A"
proof -
  have c: "addl_candidates py nm A = addl_candidates ascii_py nm A"
    unfolding addl_candidates_def using A ex nm
    by (intro filter_cong) (auto simp: has_sync_tag_ascii list_all_iff)
  have "list_all ascii_txn (addl_candidates ascii_py nm A)"
    using A by (auto simp: addl_candidates_def list_all_iff)
  then show ?thesis
    by (simp add: reconcile_def c main_loop_ascii [OF ex P])
qed

text \<open>
  The example transactions and households are ASCII text, so the runs and lookups computed
  on them with \<open>ascii_py\<close> are those of every \<open>py\<close> that is exact on ASCII.
\<close>

lemma examples_ascii:
  "list_all ascii_txn [ex_p1, ex_p2, ex_p4, ex_a1, ex_a2, ex_a3, ex_a5, ex_a6, ex_a7]"
  by (simp add: ascii_txn_def is_ascii_def merchant_name_def py_or_def lit_def ex_txn_def
      ex_tag_synced_def ex_tag_travel_def ex_tag_stale_def
      ex_p1_def ex_p2_def ex_p4_def ex_a1_def ex_a2_def ex_a3_def ex_a5_def ex_a6_def ex_a7_def)

lemma stale_runs_every_py:
  assumes "ascii_exact py"
  shows "reconcile py False accept_all (lit ''synced'') (lit ''t1'') [ex_p1, ex_p2] [ex_a2]
       = reconcile ascii_py False accept_all (lit ''synced'') (lit ''t1'') [ex_p1, ex_p2] [ex_a2]"
    and "reconcile py False accept_all (lit ''synced'') (lit ''t1'') [ex_p4] [ex_a6]
       = reconcile ascii_py False accept_all (lit ''synced'') (lit ''t1'') [ex_p4] [ex_a6]"
  using examples_ascii
  by (intro reconcile_ascii [OF assms]; simp add: is_ascii_def lit_def)+

lemma big_household_every_py:
  assumes "ascii_exact py"
  shows "ensure_tag_id py (limited big_household) (lit ''synced'')
       = ensure_tag_id ascii_py (limited big_household) (lit ''synced'')"
proof -
  have "list_all (\<lambda>g. is_ascii (tag_name g)) (take 500 big_household)"
    by (simp add: big_household_def list_all_iff filler_tag_def is_ascii_def lit_def)
  from find_tag_id_ascii [OF assms this, of "lit ''synced''"] show ?thesis
    by (simp add: ensure_tag_id_def limited_def is_ascii_def lit_def)
qed

section \<open>The claims\<close>

text \<open>
  Claim C1, as the code has it. A candidate whose key has a non-empty bucket of main-card
  transactions, none of them SHARED, is classified \<open>New_shared\<close>. In a live run that
  completes, its round of the loop sends one set-ownership mutation for every transaction of
  the bucket, in bucket order, and after them the label mutation (the existing tag ids
  followed by the sync tag id); the label mutation is left out when the sync tag id is
  already among the candidate's tag ids. A dry run sends nothing. The counter of new shared
  matches grows by one, the other two do not change.
\<close>

theorem new_shared_mutations:
  assumes run: "reconcile py dry rem sync_tag_name sync_tag_id main_txns addl_txns = Inr st"
    and cands: "addl_candidates py sync_tag_name addl_txns = before @ addl # after"
    and bucket: "filter (\<lambda>m. key_for py m = key_for py addl) main_txns = mains"
    and nonempty: "mains \<noteq> []"
    and unshared: "\<forall>m\<in>set mains. upper py (owner m) \<noteq> (lit ''SHARED'')"
  shows "\<exists>st1 st2.
      main_loop py dry rem sync_tag_id (build_index py main_txns) init_state before = Inr st1
    \<and> loop_body py dry rem sync_tag_id (build_index py main_txns) st1 addl = Inr st2
    \<and> main_loop py dry rem sync_tag_id (build_index py main_txns) st2 after = Inr st
    \<and> out st2 = out st1 @ [classified New_shared addl,
                            if dry then Dry_run_note New_shared else Updated New_shared]
    \<and> sent st2 = sent st1 @
         (if dry then []
          else map (\<lambda>m. Set_owner_shared (txn_id m)) mains @
               (if sync_tag_id \<in> set (map tag_id (tags addl)) then []
                else [Update_tags_replace (txn_id addl) (map tag_id (tags addl) @ [sync_tag_id])]))
    \<and> count_synced_new_shared st2 = count_synced_new_shared st1 + 1
    \<and> count_synced_existing_shared st2 = count_synced_existing_shared st1
    \<and> count_no_match st2 = count_no_match st1"
proof -
  let ?ix = "build_index py main_txns"
  from run cands obtain st1 st2
    where a: "main_loop py dry rem sync_tag_id ?ix init_state before = Inr st1"
      and b: "loop_body py dry rem sync_tag_id ?ix st1 addl = Inr st2"
      and c: "main_loop py dry rem sync_tag_id ?ix st2 after = Inr st"
    unfolding reconcile_def by (auto elim: main_loop_split)
  have get: "index_get ?ix (key_for py addl) = mains"
    using bucket by (simp add: index_get_build_index)
  have cl: "classify py ?ix addl = New_shared"
    using nonempty unshared by (auto simp: classify_def get filter_empty_conv)
  have "out st2 = out st1 @ [classified New_shared addl,
                            if dry then Dry_run_note New_shared else Updated New_shared]"
    using loop_body_out [OF b] by (simp add: cl)
  moreover have "sent st2 = sent st1 @
         (if dry then []
          else map (\<lambda>m. Set_owner_shared (txn_id m)) mains @
               (if sync_tag_id \<in> set (map tag_id (tags addl)) then []
                else [Update_tags_replace (txn_id addl) (map tag_id (tags addl) @ [sync_tag_id])]))"
    using loop_body_sent [OF b] by (simp add: planned_calls_def cl get label_calls_def)
  moreover have "count_synced_new_shared st2 = count_synced_new_shared st1 + 1"
    using loop_body_count [OF b, of New_shared] by (simp add: cl count_of_simps)
  moreover have "count_synced_existing_shared st2 = count_synced_existing_shared st1"
    using loop_body_count [OF b, of Existing_shared] by (simp add: cl count_of_simps)
  moreover have "count_no_match st2 = count_no_match st1"
    using loop_body_count [OF b, of No_match] by (simp add: cl count_of_simps)
  ultimately show ?thesis using a b c by blast
qed

text \<open>
  The theorem at the example of the specification: two INDIVIDUAL main-card transactions
  at one key and one candidate at that key give two ownership mutations, then one label
  mutation.
\<close>

theorem new_shared_mutations_witness:
  "reconcile ascii_py False accept_all (lit ''synced'') (lit ''t1'') [ex_p1, ex_p2] [ex_a3, ex_a1] = Inr
     \<lparr> sent = [Set_owner_shared (lit ''p1''), Set_owner_shared (lit ''p2''),
               Update_tags_replace (lit ''a1'') [(lit ''t7''), (lit ''t1'')]],
       out = [classified New_shared ex_a1, Updated New_shared],
       count_synced_existing_shared = 0, count_synced_new_shared = 1, count_no_match = 0 \<rparr>
   \<and> addl_candidates ascii_py (lit ''synced'') [ex_a3, ex_a1] = [] @ ex_a1 # []
   \<and> filter (\<lambda>m. key_for ascii_py m = key_for ascii_py ex_a1) [ex_p1, ex_p2] = [ex_p1, ex_p2]
   \<and> upper ascii_py (owner ex_p1) \<noteq> (lit ''SHARED'') \<and> upper ascii_py (owner ex_p2) \<noteq> (lit ''SHARED'')
   \<and> (\<exists>st1 st2.
        main_loop ascii_py False accept_all (lit ''t1'') (build_index ascii_py [ex_p1, ex_p2]) init_state [] = Inr st1
      \<and> loop_body ascii_py False accept_all (lit ''t1'') (build_index ascii_py [ex_p1, ex_p2]) st1 ex_a1 = Inr st2
      \<and> sent st2 = sent st1 @ [Set_owner_shared (lit ''p1''), Set_owner_shared (lit ''p2''),
               Update_tags_replace (lit ''a1'') [(lit ''t7''), (lit ''t1'')]])"
proof -
  have run: "reconcile ascii_py False accept_all (lit ''synced'') (lit ''t1'') [ex_p1, ex_p2] [ex_a3, ex_a1] = Inr
     \<lparr> sent = [Set_owner_shared (lit ''p1''), Set_owner_shared (lit ''p2''),
               Update_tags_replace (lit ''a1'') [(lit ''t7''), (lit ''t1'')]],
       out = [classified New_shared ex_a1, Updated New_shared],
       count_synced_existing_shared = 0, count_synced_new_shared = 1, count_no_match = 0 \<rparr>"
    by (simp add: run_defs ex_defs)
  have cands: "addl_candidates ascii_py (lit ''synced'') [ex_a3, ex_a1] = [] @ ex_a1 # []"
    by (simp add: run_defs ex_defs)
  have bucket: "filter (\<lambda>m. key_for ascii_py m = key_for ascii_py ex_a1) [ex_p1, ex_p2] = [ex_p1, ex_p2]"
    by (simp add: run_defs ex_defs)
  have nonempty: "[ex_p1, ex_p2] \<noteq> []" by simp
  have unshared: "\<forall>m\<in>set [ex_p1, ex_p2]. upper ascii_py (owner m) \<noteq> (lit ''SHARED'')"
    by (simp add: run_defs ex_defs)
  from new_shared_mutations [OF run cands bucket nonempty unshared]
  have "\<exists>st1 st2.
        main_loop ascii_py False accept_all (lit ''t1'') (build_index ascii_py [ex_p1, ex_p2]) init_state [] = Inr st1
      \<and> loop_body ascii_py False accept_all (lit ''t1'') (build_index ascii_py [ex_p1, ex_p2]) st1 ex_a1 = Inr st2
      \<and> sent st2 = sent st1 @ [Set_owner_shared (lit ''p1''), Set_owner_shared (lit ''p2''),
               Update_tags_replace (lit ''a1'') [(lit ''t7''), (lit ''t1'')]]"
    by (simp add: ex_defs lit_eq_iff)
  moreover have "upper ascii_py (owner ex_p1) \<noteq> (lit ''SHARED'') \<and> upper ascii_py (owner ex_p2) \<noteq> (lit ''SHARED'')"
    using unshared by simp
  ultimately show ?thesis using run cands bucket by blast
qed

text \<open>
  Claim C1 as stated fails: a candidate that carries the sync tag id under another name
  (so it passes the name filter) is classified \<open>New_shared\<close> with a bucket of two INDIVIDUAL
  transactions, and the live run sends the two ownership mutations and no label mutation.
\<close>

theorem new_shared_label_skipped:
  "reconcile ascii_py False accept_all (lit ''synced'') (lit ''t1'') [ex_p1, ex_p2] [ex_a2]
     = Inr \<lparr> sent = [Set_owner_shared (lit ''p1''), Set_owner_shared (lit ''p2'')],
             out = [classified New_shared ex_a2, Updated New_shared],
             count_synced_existing_shared = 0, count_synced_new_shared = 1, count_no_match = 0 \<rparr>
   \<and> addl_candidates ascii_py (lit ''synced'') [ex_a2] = [ex_a2]
   \<and> index_get (build_index ascii_py [ex_p1, ex_p2]) (key_for ascii_py ex_a2) = [ex_p1, ex_p2]
   \<and> upper ascii_py (owner ex_p1) \<noteq> (lit ''SHARED'') \<and> upper ascii_py (owner ex_p2) \<noteq> (lit ''SHARED'')"
  by (simp add: run_defs ex_defs ex_a2_def ex_tag_stale_def)

text \<open>
  Claim C2, as the code has it. A candidate whose bucket holds a SHARED main-card
  transaction is classified \<open>Existing_shared\<close>. In a live run that completes, its round of
  the loop sends exactly the label mutation (the existing tag ids followed by the sync tag
  id) and no ownership mutation; it sends nothing at all when the sync tag id is already
  among the candidate's tag ids, and nothing in a dry run.
\<close>

theorem existing_shared_mutation:
  assumes run: "reconcile py dry rem sync_tag_name sync_tag_id main_txns addl_txns = Inr st"
    and cands: "addl_candidates py sync_tag_name addl_txns = before @ addl # after"
    and shared: "\<exists>m\<in>set main_txns. key_for py m = key_for py addl \<and> upper py (owner m) = (lit ''SHARED'')"
  shows "\<exists>st1 st2.
      main_loop py dry rem sync_tag_id (build_index py main_txns) init_state before = Inr st1
    \<and> loop_body py dry rem sync_tag_id (build_index py main_txns) st1 addl = Inr st2
    \<and> main_loop py dry rem sync_tag_id (build_index py main_txns) st2 after = Inr st
    \<and> out st2 = out st1 @ [classified Existing_shared addl,
                            if dry then Dry_run_note Existing_shared else Updated Existing_shared]
    \<and> sent st2 = sent st1 @
         (if dry \<or> sync_tag_id \<in> set (map tag_id (tags addl)) then []
          else [Update_tags_replace (txn_id addl) (map tag_id (tags addl) @ [sync_tag_id])])
    \<and> count_synced_existing_shared st2 = count_synced_existing_shared st1 + 1
    \<and> count_synced_new_shared st2 = count_synced_new_shared st1
    \<and> count_no_match st2 = count_no_match st1"
proof -
  let ?ix = "build_index py main_txns"
  from run cands obtain st1 st2
    where a: "main_loop py dry rem sync_tag_id ?ix init_state before = Inr st1"
      and b: "loop_body py dry rem sync_tag_id ?ix st1 addl = Inr st2"
      and c: "main_loop py dry rem sync_tag_id ?ix st2 after = Inr st"
    unfolding reconcile_def by (auto elim: main_loop_split)
  have cl: "classify py ?ix addl = Existing_shared"
    using shared by (auto simp: classify_build_index)
  have "out st2 = out st1 @ [classified Existing_shared addl,
                            if dry then Dry_run_note Existing_shared else Updated Existing_shared]"
    using loop_body_out [OF b] by (simp add: cl)
  moreover have "sent st2 = sent st1 @
         (if dry \<or> sync_tag_id \<in> set (map tag_id (tags addl)) then []
          else [Update_tags_replace (txn_id addl) (map tag_id (tags addl) @ [sync_tag_id])])"
    using loop_body_sent [OF b] by (simp add: planned_calls_def cl label_calls_def)
  moreover have "count_synced_existing_shared st2 = count_synced_existing_shared st1 + 1"
    using loop_body_count [OF b, of Existing_shared] by (simp add: cl count_of_simps)
  moreover have "count_synced_new_shared st2 = count_synced_new_shared st1"
    using loop_body_count [OF b, of New_shared] by (simp add: cl count_of_simps)
  moreover have "count_no_match st2 = count_no_match st1"
    using loop_body_count [OF b, of No_match] by (simp add: cl count_of_simps)
  ultimately show ?thesis using a b c by blast
qed

theorem existing_shared_mutation_witness:
  "reconcile ascii_py False accept_all (lit ''synced'') (lit ''t1'') [ex_p1, ex_p4] [ex_a5] = Inr
     \<lparr> sent = [Update_tags_replace (lit ''a5'') [(lit ''t1'')]],
       out = [classified Existing_shared ex_a5, Updated Existing_shared],
       count_synced_existing_shared = 1, count_synced_new_shared = 0, count_no_match = 0 \<rparr>
   \<and> addl_candidates ascii_py (lit ''synced'') [ex_a5] = [] @ ex_a5 # []
   \<and> (\<exists>m\<in>set [ex_p1, ex_p4]. key_for ascii_py m = key_for ascii_py ex_a5 \<and> upper ascii_py (owner m) = (lit ''SHARED''))
   \<and> (\<exists>st1 st2.
        main_loop ascii_py False accept_all (lit ''t1'') (build_index ascii_py [ex_p1, ex_p4]) init_state [] = Inr st1
      \<and> loop_body ascii_py False accept_all (lit ''t1'') (build_index ascii_py [ex_p1, ex_p4]) st1 ex_a5 = Inr st2
      \<and> sent st2 = sent st1 @ [Update_tags_replace (lit ''a5'') [(lit ''t1'')]])"
proof -
  have run: "reconcile ascii_py False accept_all (lit ''synced'') (lit ''t1'') [ex_p1, ex_p4] [ex_a5] = Inr
     \<lparr> sent = [Update_tags_replace (lit ''a5'') [(lit ''t1'')]],
       out = [classified Existing_shared ex_a5, Updated Existing_shared],
       count_synced_existing_shared = 1, count_synced_new_shared = 0, count_no_match = 0 \<rparr>"
    by (simp add: run_defs ex_defs)
  have cands: "addl_candidates ascii_py (lit ''synced'') [ex_a5] = [] @ ex_a5 # []"
    by (simp add: run_defs ex_defs)
  have shared: "\<exists>m\<in>set [ex_p1, ex_p4]. key_for ascii_py m = key_for ascii_py ex_a5 \<and> upper ascii_py (owner m) = (lit ''SHARED'')"
    by (simp add: run_defs ex_defs)
  from existing_shared_mutation [OF run cands shared]
  have "\<exists>st1 st2.
        main_loop ascii_py False accept_all (lit ''t1'') (build_index ascii_py [ex_p1, ex_p4]) init_state [] = Inr st1
      \<and> loop_body ascii_py False accept_all (lit ''t1'') (build_index ascii_py [ex_p1, ex_p4]) st1 ex_a5 = Inr st2
      \<and> sent st2 = sent st1 @ [Update_tags_replace (lit ''a5'') [(lit ''t1'')]]"
    by (simp add: ex_defs)
  with run cands shared show ?thesis by blast
qed

text \<open>
  Claim C2 as stated fails: a candidate that carries the sync tag id under another name is
  classified \<open>Existing_shared\<close> and the live run sends no mutation, not one.
\<close>

theorem existing_shared_label_skipped:
  "reconcile ascii_py False accept_all (lit ''synced'') (lit ''t1'') [ex_p4] [ex_a6]
     = Inr \<lparr> sent = [],
             out = [classified Existing_shared ex_a6, Updated Existing_shared],
             count_synced_existing_shared = 1, count_synced_new_shared = 0, count_no_match = 0 \<rparr>
   \<and> addl_candidates ascii_py (lit ''synced'') [ex_a6] = [ex_a6]
   \<and> index_get (build_index ascii_py [ex_p4]) (key_for ascii_py ex_a6) = [ex_p4]
   \<and> upper ascii_py (owner ex_p4) = (lit ''SHARED'')"
  by (simp add: run_defs ex_defs ex_a6_def ex_tag_stale_def)

text \<open>
  Claim C3. The comparison is the script's: both names lower-cased by Python's
  \<open>str.lower\<close>, whatever the alphabet. \<open>has_sync_tag\<close> holds exactly when some tag of the
  transaction has the sync tag name under that comparison. Such a transaction is not a
  candidate, and the run is the run on the list without it: no line and no mutation comes
  from it. A second live run sends no mutation: when the household tag ids are distinct,
  \<open>ensure_tag_id\<close> found the sync tag id, and a live run completed, the live run on the
  ledger as the accepted mutations of the first run left it completes, whatever the remote
  would answer, and sends nothing.
\<close>

theorem labelled_skipped_rerun_idle:
  "(has_sync_tag py t nm \<longleftrightarrow> (\<exists>g\<in>set (tags t). lower py (tag_name g) = lower py nm))
   \<and> (has_sync_tag py t nm \<longrightarrow> t \<notin> set (addl_candidates py nm A))
   \<and> reconcile py dry rem nm tid P A
       = reconcile py dry rem nm tid P (filter (\<lambda>t. \<not> has_sync_tag py t nm) A)
   \<and> (ascii_exact py \<and> distinct (map tag_id catalog) \<and> find_tag_id py catalog nm = Some tid
        \<and> reconcile py False rem nm tid P A = Inr st
      \<longrightarrow> (\<exists>st'. reconcile py False rem' nm tid
                    (after_calls catalog (sent st) P) (after_calls catalog (sent st) A) = Inr st'
               \<and> sent st' = []))"
proof -
  have 1: "has_sync_tag py t nm \<longleftrightarrow> (\<exists>g\<in>set (tags t). lower py (tag_name g) = lower py nm)"
    by (rule has_sync_tag_iff)
  have 2: "has_sync_tag py t nm \<longrightarrow> t \<notin> set (addl_candidates py nm A)"
    by (simp add: addl_candidates_def)
  have 3: "reconcile py dry rem nm tid P A
       = reconcile py dry rem nm tid P (filter (\<lambda>t. \<not> has_sync_tag py t nm) A)"
    by (simp add: reconcile_def addl_candidates_def)
  have 4: "\<exists>st'. reconcile py False rem' nm tid
                    (after_calls catalog (sent st) P) (after_calls catalog (sent st) A) = Inr st'
               \<and> sent st' = []"
    if ex: "ascii_exact py" and d: "distinct (map tag_id catalog)" and f: "find_tag_id py catalog nm = Some tid"
      and run: "reconcile py False rem nm tid P A = Inr st"
  proof -
    let ?cs = "sent st"
    let ?P' = "after_calls catalog ?cs P" and ?A' = "after_calls catalog ?cs A"
    have cs: "?cs = concat (map (planned_calls py tid (build_index py P)) (addl_candidates py nm A))"
      using main_loop_sent [of py False rem tid "build_index py P" init_state "addl_candidates py nm A" st] run
      by (simp add: reconcile_def init_state_def)
    have q: "\<forall>a\<in>set (addl_candidates py nm ?A'). planned_calls py tid (build_index py ?P') a = []"
      using rerun_quiet [OF ascii_exact_SHARED [OF ex] d f cs] by blast
    then obtain st' where st': "main_loop py False rem' tid (build_index py ?P') init_state
        (addl_candidates py nm ?A') = Inr st'"
      using main_loop_quiet [where dry = False and py = py and cs = "addl_candidates py nm ?A'"
          and tid = tid and ix = "build_index py ?P'" and rem = rem' and st = init_state]
      by auto
    from main_loop_sent [OF st'] q have "sent st' = []"
      by (simp add: init_state_def)
    with st' show ?thesis by (simp add: reconcile_def)
  qed
  from 1 2 3 4 show ?thesis by blast
qed

theorem labelled_skipped_rerun_idle_witness:
  "has_sync_tag ascii_py ex_a3 (lit ''synced'')
   \<and> ascii_exact ascii_py
   \<and> distinct (map tag_id ex_catalog)
   \<and> find_tag_id ascii_py ex_catalog (lit ''synced'') = Some (lit ''t1'')
   \<and> (\<exists>st. reconcile ascii_py False accept_all (lit ''synced'') (lit ''t1'') [ex_p1, ex_p2, ex_p4]
               [ex_a3, ex_a1, ex_a5, ex_a7] = Inr st
         \<and> sent st = [Set_owner_shared (lit ''p1''), Set_owner_shared (lit ''p2''),
                       Update_tags_replace (lit ''a1'') [(lit ''t7''), (lit ''t1'')],
                       Update_tags_replace (lit ''a5'') [(lit ''t1'')]]
         \<and> after_calls ex_catalog (sent st) [ex_p1, ex_p2, ex_p4]
             = [ex_p1\<lparr> owner := (lit ''SHARED'') \<rparr>, ex_p2\<lparr> owner := (lit ''SHARED'') \<rparr>, ex_p4]
         \<and> after_calls ex_catalog (sent st) [ex_a3, ex_a1, ex_a5, ex_a7]
             = [ex_a3, ex_a1\<lparr> tags := [ex_tag_travel, ex_tag_synced] \<rparr>,
                ex_a5\<lparr> tags := [ex_tag_synced] \<rparr>, ex_a7]
         \<and> (\<exists>st'. reconcile ascii_py False accept_all (lit ''synced'') (lit ''t1'')
                 (after_calls ex_catalog (sent st) [ex_p1, ex_p2, ex_p4])
                 (after_calls ex_catalog (sent st) [ex_a3, ex_a1, ex_a5, ex_a7]) = Inr st'
               \<and> sent st' = []))"
proof -
  let ?P = "[ex_p1, ex_p2, ex_p4]" and ?A = "[ex_a3, ex_a1, ex_a5, ex_a7]"
  have l: "has_sync_tag ascii_py ex_a3 (lit ''synced'')"
    by (simp add: run_defs ex_defs)
  have d: "distinct (map tag_id ex_catalog)"
    by (simp add: ex_catalog_def ex_defs)
  have f: "find_tag_id ascii_py ex_catalog (lit ''synced'') = Some (lit ''t1'')"
    by (simp add: ex_catalog_def ex_defs py_defs)
  obtain st where run: "reconcile ascii_py False accept_all (lit ''synced'') (lit ''t1'') ?P ?A = Inr st"
    and sent: "sent st = [Set_owner_shared (lit ''p1''), Set_owner_shared (lit ''p2''),
                       Update_tags_replace (lit ''a1'') [(lit ''t7''), (lit ''t1'')],
                       Update_tags_replace (lit ''a5'') [(lit ''t1'')]]"
    by (simp add: run_defs ex_defs)
  have p: "after_calls ex_catalog (sent st) ?P
             = [ex_p1\<lparr> owner := (lit ''SHARED'') \<rparr>, ex_p2\<lparr> owner := (lit ''SHARED'') \<rparr>, ex_p4]"
    by (simp add: sent after_calls_def txn_after_def apply_call_def replace_tags_def ex_catalog_def
        ex_defs lit_eq_iff)
  have q: "after_calls ex_catalog (sent st) ?A
             = [ex_a3, ex_a1\<lparr> tags := [ex_tag_travel, ex_tag_synced] \<rparr>,
                ex_a5\<lparr> tags := [ex_tag_synced] \<rparr>, ex_a7]"
    by (simp add: sent after_calls_def txn_after_def apply_call_def replace_tags_def ex_catalog_def
        ex_defs lit_eq_iff)
  from labelled_skipped_rerun_idle [where py = ascii_py and t = ex_a3 and nm = "lit ''synced''"
      and A = ?A and dry = False and rem = accept_all and tid = "lit ''t1''" and P = ?P
      and catalog = ex_catalog and st = st and rem' = accept_all] ascii_exact_ascii_py d f run
  have "\<exists>st'. reconcile ascii_py False accept_all (lit ''synced'') (lit ''t1'')
                 (after_calls ex_catalog (sent st) ?P) (after_calls ex_catalog (sent st) ?A) = Inr st'
               \<and> sent st' = []"
    by blast
  with l ascii_exact_ascii_py d f run sent p q show ?thesis by blast
qed



text \<open>
  Claim C5. A dry run completes whatever the remote would answer and sends no mutation;
  every live run on the same input that completes has the same three counters and the same
  classification lines.
\<close>

theorem dry_run_same_report:
  "\<exists>sd. reconcile py True rem sync_tag_name sync_tag_id main_txns addl_txns = Inr sd
      \<and> sent sd = []
      \<and> (\<forall>rem' sl. reconcile py False rem' sync_tag_name sync_tag_id main_txns addl_txns = Inr sl \<longrightarrow>
            count_synced_existing_shared sl = count_synced_existing_shared sd
          \<and> count_synced_new_shared sl = count_synced_new_shared sd
          \<and> count_no_match sl = count_no_match sd
          \<and> classifications sl = classifications sd)"
proof -
  let ?ix = "build_index py main_txns" and ?cs = "addl_candidates py sync_tag_name addl_txns"
  obtain sd where sd: "main_loop py True rem sync_tag_id ?ix init_state ?cs = Inr sd"
    using main_loop_quiet [where dry = True and py = py and cs = ?cs and tid = sync_tag_id and ix = ?ix
        and rem = rem and st = init_state] by auto
  have "sent sd = []"
    using main_loop_sent [OF sd] by (simp add: init_state_def)
  moreover have "count_synced_existing_shared sl = count_synced_existing_shared sd
          \<and> count_synced_new_shared sl = count_synced_new_shared sd
          \<and> count_no_match sl = count_no_match sd
          \<and> classifications sl = classifications sd"
    if "reconcile py False rem' sync_tag_name sync_tag_id main_txns addl_txns = Inr sl" for rem' sl
  proof -
    from that have sl: "main_loop py False rem' sync_tag_id ?ix init_state ?cs = Inr sl"
      by (simp add: reconcile_def)
    have "count_of c sl = count_of c sd" for c
      using main_loop_count [OF sl, of c] main_loop_count [OF sd, of c] by simp
    from this [of No_match] this [of Existing_shared] this [of New_shared]
    show ?thesis
      using main_loop_classifications [OF sl] main_loop_classifications [OF sd]
      by (simp add: count_of_simps)
  qed
  ultimately show ?thesis using sd by (auto simp: reconcile_def)
qed

theorem dry_run_same_report_witness:
  "reconcile ascii_py True accept_all (lit ''synced'') (lit ''t1'') [ex_p1, ex_p2, ex_p4] [ex_a3, ex_a1, ex_a5, ex_a7]
     = Inr \<lparr> sent = [],
             out = [classified New_shared ex_a1, Dry_run_note New_shared,
                    classified Existing_shared ex_a5, Dry_run_note Existing_shared,
                    classified No_match ex_a7],
             count_synced_existing_shared = 1, count_synced_new_shared = 1, count_no_match = 1 \<rparr>
   \<and> (\<exists>sl. reconcile ascii_py False accept_all (lit ''synced'') (lit ''t1'') [ex_p1, ex_p2, ex_p4]
               [ex_a3, ex_a1, ex_a5, ex_a7] = Inr sl
          \<and> sent sl = [Set_owner_shared (lit ''p1''), Set_owner_shared (lit ''p2''),
                        Update_tags_replace (lit ''a1'') [(lit ''t7''), (lit ''t1'')],
                        Update_tags_replace (lit ''a5'') [(lit ''t1'')]]
          \<and> count_synced_existing_shared sl = 1 \<and> count_synced_new_shared sl = 1
          \<and> count_no_match sl = 1
          \<and> classifications sl = [classified New_shared ex_a1, classified Existing_shared ex_a5,
                                    classified No_match ex_a7])"
proof -
  let ?P = "[ex_p1, ex_p2, ex_p4]" and ?A = "[ex_a3, ex_a1, ex_a5, ex_a7]"
  have dry: "reconcile ascii_py True accept_all (lit ''synced'') (lit ''t1'') ?P ?A
     = Inr \<lparr> sent = [],
             out = [classified New_shared ex_a1, Dry_run_note New_shared,
                    classified Existing_shared ex_a5, Dry_run_note Existing_shared,
                    classified No_match ex_a7],
             count_synced_existing_shared = 1, count_synced_new_shared = 1, count_no_match = 1 \<rparr>"
    by (simp add: run_defs ex_defs)
  obtain sl where live: "reconcile ascii_py False accept_all (lit ''synced'') (lit ''t1'') ?P ?A = Inr sl"
    and sent: "sent sl = [Set_owner_shared (lit ''p1''), Set_owner_shared (lit ''p2''),
                        Update_tags_replace (lit ''a1'') [(lit ''t7''), (lit ''t1'')],
                        Update_tags_replace (lit ''a5'') [(lit ''t1'')]]"
    by (simp add: run_defs ex_defs)
  from dry_run_same_report [of ascii_py accept_all "lit ''synced''" "lit ''t1''" ?P ?A] dry live
  have "count_synced_existing_shared sl = 1 \<and> count_synced_new_shared sl = 1
          \<and> count_no_match sl = 1
          \<and> classifications sl = [classified New_shared ex_a1, classified Existing_shared ex_a5,
                                    classified No_match ex_a7]"
    by (auto simp: classifications_def)
  with dry live sent show ?thesis by blast
qed

text \<open>
  Claim C6, as the code has it. \<open>ensure_tag_id\<close> asks for the household tags once, with the
  limit 500, and searches the tags it is sent. When the query answers, it returns the id of
  the first of them whose name equals the given name after Python's \<open>lower\<close> on both;
  when none of them has such a name it fails with a \<open>RuntimeError\<close> whose message ends with
  the advice to create the tag first. An id it returns is always the id of a tag of the
  answer: it creates none.
\<close>

theorem ensure_tag_id_resolves:
  assumes "tsrc 500 = Inr data" and "catalog = (case data of None \<Rightarrow> [] | Some ts \<Rightarrow> ts)"
  shows "((\<exists>t\<in>set catalog. lower py (tag_name t) = lower py nm) \<longrightarrow>
            (\<exists>pre t post. catalog = pre @ t # post
               \<and> (\<forall>u\<in>set pre. lower py (tag_name u) \<noteq> lower py nm)
               \<and> lower py (tag_name t) = lower py nm
               \<and> ensure_tag_id py tsrc nm = Inr (tag_id t)))
       \<and> ((\<forall>t\<in>set catalog. lower py (tag_name t) \<noteq> lower py nm) \<longrightarrow>
            ensure_tag_id py tsrc nm = Inl (RuntimeError (tag_not_found nm)))
       \<and> (\<exists>pre. tag_not_found nm
              = pre @ (lit ''Please create it in Monarch first (e.g. as a transaction tag) and rerun.''))
       \<and> (\<forall>i. ensure_tag_id py tsrc nm = Inr i \<longrightarrow> i \<in> tag_id ` set catalog)"
proof -
  have e: "ensure_tag_id py tsrc nm = (case find_tag_id py catalog nm of
             Some i \<Rightarrow> Inr i | None \<Rightarrow> Inl (RuntimeError (tag_not_found nm)))"
    using assms by (simp add: ensure_tag_id_def)
  have a: "\<exists>pre t post. catalog = pre @ t # post
               \<and> (\<forall>u\<in>set pre. lower py (tag_name u) \<noteq> lower py nm)
               \<and> lower py (tag_name t) = lower py nm
               \<and> ensure_tag_id py tsrc nm = Inr (tag_id t)"
    if "\<exists>t\<in>set catalog. lower py (tag_name t) = lower py nm"
  proof -
    from that obtain i where i: "find_tag_id py catalog nm = Some i"
      using find_tag_id_None [of py catalog nm] by (cases "find_tag_id py catalog nm") auto
    from find_tag_id_Some [OF i] show ?thesis using e i by auto
  qed
  have b: "ensure_tag_id py tsrc nm = Inl (RuntimeError (tag_not_found nm))"
    if "\<forall>t\<in>set catalog. lower py (tag_name t) \<noteq> lower py nm"
    using that e find_tag_id_None [of py catalog nm] by simp
  have c: "\<exists>pre. tag_not_found nm
              = pre @ (lit ''Please create it in Monarch first (e.g. as a transaction tag) and rerun.'')"
    unfolding tag_not_found_def by (metis append.assoc)
  have d: "i \<in> tag_id ` set catalog" if "ensure_tag_id py tsrc nm = Inr i" for i
  proof -
    from that e have "find_tag_id py catalog nm = Some i"
      by (cases "find_tag_id py catalog nm") auto
    from find_tag_id_Some [OF this] show ?thesis by auto
  qed
  from a b c d show ?thesis by blast
qed

theorem ensure_tag_id_resolves_witness:
  "ensure_tag_id ascii_py ex_tag_source (lit ''SYNCED'') = Inr (lit ''t1'')
   \<and> ensure_tag_id ascii_py ex_tag_source (lit ''missing'') = Inl (RuntimeError (tag_not_found (lit ''missing'')))
   \<and> (\<exists>t\<in>set [ex_tag_travel, ex_tag_synced]. lower ascii_py (tag_name t) = lower ascii_py (lit ''SYNCED''))
   \<and> lower ascii_py (tag_name ex_tag_travel) \<noteq> lower ascii_py (lit ''missing'')
   \<and> lower ascii_py (tag_name ex_tag_synced) \<noteq> lower ascii_py (lit ''missing'')"
proof -
  have src: "ex_tag_source 500 = Inr (Some [ex_tag_travel, ex_tag_synced])"
    by (simp add: ex_tag_source_def)
  have cat: "[ex_tag_travel, ex_tag_synced]
      = (case Some [ex_tag_travel, ex_tag_synced] of None \<Rightarrow> [] | Some ts \<Rightarrow> ts)"
    by simp
  have yes: "\<exists>t\<in>set [ex_tag_travel, ex_tag_synced]. lower ascii_py (tag_name t) = lower ascii_py (lit ''SYNCED'')"
    by (simp add: ex_defs py_defs)
  have no: "\<forall>t\<in>set [ex_tag_travel, ex_tag_synced]. lower ascii_py (tag_name t) \<noteq> lower ascii_py (lit ''missing'')"
    by (simp add: ex_defs py_defs)
  from ensure_tag_id_resolves [of ex_tag_source "Some [ex_tag_travel, ex_tag_synced]"
      "[ex_tag_travel, ex_tag_synced]" ascii_py "lit ''missing''", OF src cat] no
  have 1: "ensure_tag_id ascii_py ex_tag_source (lit ''missing'') = Inl (RuntimeError (tag_not_found (lit ''missing'')))"
    by blast
  from ensure_tag_id_resolves [of ex_tag_source "Some [ex_tag_travel, ex_tag_synced]"
      "[ex_tag_travel, ex_tag_synced]" ascii_py "lit ''SYNCED''", OF src cat] yes
  obtain pre t post where "[ex_tag_travel, ex_tag_synced] = pre @ t # post"
    "\<forall>u\<in>set pre. lower ascii_py (tag_name u) \<noteq> lower ascii_py (lit ''SYNCED'')" "lower ascii_py (tag_name t) = lower ascii_py (lit ''SYNCED'')"
    "ensure_tag_id ascii_py ex_tag_source (lit ''SYNCED'') = Inr (tag_id t)"
    by blast
  then have 2: "ensure_tag_id ascii_py ex_tag_source (lit ''SYNCED'') = Inr (lit ''t1'')"
    by (auto simp: ex_defs py_defs Cons_eq_append_conv)
  from no have "lower ascii_py (tag_name ex_tag_travel) \<noteq> lower ascii_py (lit ''missing'')
      \<and> lower ascii_py (tag_name ex_tag_synced) \<noteq> lower ascii_py (lit ''missing'')"
    by simp
  with 1 2 yes show ?thesis by blast
qed

text \<open>
  Claim C6 as stated fails: the search is not over the full household catalog. Against a
  remote that honours the limit, a household with five hundred other tags before the sync
  tag gets the not-found error although the tag exists.
\<close>

lemma filler_tag_name:
  "lower ascii_py (tag_name (filler_tag i)) \<noteq> lower ascii_py (lit ''synced'')"
  by (simp add: filler_tag_def py_defs)

theorem ensure_tag_id_beyond_limit:
  "ensure_tag_id ascii_py (limited big_household) (lit ''synced'')
     = Inl (RuntimeError (tag_not_found (lit ''synced'')))
   \<and> length big_household = 501
   \<and> ex_tag_synced \<in> set big_household
   \<and> lower ascii_py (tag_name ex_tag_synced) = lower ascii_py (lit ''synced'')"
proof -
  have t: "take 500 big_household = map filler_tag [0..<500]"
    by (simp add: big_household_def)
  have "find_tag_id ascii_py (map filler_tag [0..<500]) (lit ''synced'') = None"
    unfolding find_tag_id_None using filler_tag_name by auto
  then have 1: "ensure_tag_id ascii_py (limited big_household) (lit ''synced'')
     = Inl (RuntimeError (tag_not_found (lit ''synced'')))"
    by (simp add: ensure_tag_id_def limited_def t)
  have 2: "length big_household = 501" "ex_tag_synced \<in> set big_household"
    by (simp_all add: big_household_def)
  have 3: "lower ascii_py (tag_name ex_tag_synced) = lower ascii_py (lit ''synced'')"
    by (simp add: ex_tag_synced_def py_defs)
  from 1 2 3 show ?thesis by blast
qed

text \<open>
  Claim C7, as the code has it. When the totals that the source reports are bounded, the
  loop ends: some round is the first that stops (its request raises, or the records received
  reach the total it reports, or its page is empty), every request starts at the number of
  records received so far, and the result is the exception of that round or the records of
  all pages in the order of the requests.
\<close>

theorem fetch_transactions_terminates:
  assumes "\<forall>offset data. src account_id offset 200 = Inr data \<longrightarrow> page_total data \<le> bound"
  shows "\<exists>n. stops src account_id (received src account_id n)
      \<and> (\<forall>k<n. \<not> stops src account_id (received src account_id k))
      \<and> fetch_transactions src account_id =
          Some (case src account_id (received src account_id n) 200 of
                  Inl e \<Rightarrow> Inl e
                | Inr data \<Rightarrow>
                    Inr (map normalized (concat (batches src account_id 0 (Suc n)))))"
proof -
  from bounded_stops [where src = src and account_id = account_id and bound = bound
      and offset = 0, OF assms] obtain n
    where a: "stops src account_id (0 + length (concat (batches src account_id 0 n)))"
      and b: "\<forall>k<n. \<not> stops src account_id (0 + length (concat (batches src account_id 0 k)))"
    by blast
  from fetch_loop_rounds [OF a b, of "[]"] a b
  have "stops src account_id (received src account_id n)
      \<and> (\<forall>k<n. \<not> stops src account_id (received src account_id k))
      \<and> fetch_transactions src account_id =
          Some (case src account_id (received src account_id n) 200 of
                  Inl e \<Rightarrow> Inl e
                | Inr data \<Rightarrow>
                    Inr (map normalized (concat (batches src account_id 0 (Suc n)))))"
    by (simp add: fetch_transactions_def received_def split: sum.splits)
  then show ?thesis ..
qed

theorem fetch_transactions_terminates_witness:
  "fetch_transactions two_page_source (lit ''acct'')
     = Some (Inr (map normalized [ex_raw ''r1'', ex_raw ''r2'', ex_raw ''r3'']))
   \<and> stops two_page_source (lit ''acct'') (received two_page_source (lit ''acct'') 1)
   \<and> \<not> stops two_page_source (lit ''acct'') (received two_page_source (lit ''acct'') 0)
   \<and> received two_page_source (lit ''acct'') 1 = 2"
proof -
  have bounded: "\<forall>offset data. two_page_source (lit ''acct'') offset 200 = Inr data
      \<longrightarrow> page_total data \<le> 3"
    by (auto simp: two_page_source_def page_total_def py_or_int_def)
  have s0: "\<not> stops two_page_source (lit ''acct'') (received two_page_source (lit ''acct'') 0)"
    by (simp add: src_defs)
  have r1: "received two_page_source (lit ''acct'') 1 = 2"
    by (simp add: src_defs)
  have s1: "stops two_page_source (lit ''acct'') (received two_page_source (lit ''acct'') 1)"
    by (simp add: src_defs)
  from fetch_transactions_terminates [of two_page_source "(lit ''acct'')" 3, OF bounded] obtain n
    where a: "stops two_page_source (lit ''acct'') (received two_page_source (lit ''acct'') n)"
      and b: "\<forall>k<n. \<not> stops two_page_source (lit ''acct'') (received two_page_source (lit ''acct'') k)"
      and c: "fetch_transactions two_page_source (lit ''acct'') =
          Some (case two_page_source (lit ''acct'') (received two_page_source (lit ''acct'') n) 200 of
                  Inl e \<Rightarrow> Inl e
                | Inr data \<Rightarrow>
                    Inr (map normalized (concat (batches two_page_source (lit ''acct'') 0 (Suc n)))))"
    by blast
  have "n = 1"
  proof (rule ccontr)
    assume "n \<noteq> 1"
    then consider "n = 0" | "1 < n" by linarith
    then show False
    proof cases
      case 1
      with a s0 show False by simp
    next
      case 2
      with b s1 show False by blast
    qed
  qed
  with c have "fetch_transactions two_page_source (lit ''acct'')
     = Some (Inr (map normalized [ex_raw ''r1'', ex_raw ''r2'', ex_raw ''r3'']))"
    by (simp add: r1) (simp add: two_page_source_def)
  with s0 s1 r1 show ?thesis by blast
qed

text \<open>
  Claim C7 as stated fails: against a source that answers every request with one record and
  a total two above the offset, neither \<open>break\<close> condition ever holds and the loop does not
  return.
\<close>

theorem fetch_transactions_never_ends:
  "fetch_transactions growing_source (lit ''acct'') = None"
  using fetch_loop_growing [of growing_source "(lit ''acct'')" 0 "[]"]
  by (cases "fetch_loop growing_source (lit ''acct'') 0 []") (auto simp: fetch_transactions_def)

text \<open>
  Claim C8. In a run that completes, the three counters add up to the number of candidates,
  and each counter is the number of candidates of its outcome: no main-card transaction at
  the key, a SHARED one at the key, or some at the key and none of them SHARED.
\<close>

theorem counters_partition:
  assumes run: "reconcile py dry rem sync_tag_name sync_tag_id main_txns addl_txns = Inr st"
  shows "count_synced_existing_shared st + count_synced_new_shared st + count_no_match st
           = length (addl_candidates py sync_tag_name addl_txns)
    \<and> count_no_match st = length (filter (\<lambda>a. \<not> (\<exists>m\<in>set main_txns. key_for py m = key_for py a))
          (addl_candidates py sync_tag_name addl_txns))
    \<and> count_synced_existing_shared st = length (filter
          (\<lambda>a. \<exists>m\<in>set main_txns. key_for py m = key_for py a \<and> upper py (owner m) = (lit ''SHARED''))
          (addl_candidates py sync_tag_name addl_txns))
    \<and> count_synced_new_shared st = length (filter
          (\<lambda>a. (\<exists>m\<in>set main_txns. key_for py m = key_for py a) \<and>
               (\<forall>m\<in>set main_txns. key_for py m = key_for py a \<longrightarrow> upper py (owner m) \<noteq> (lit ''SHARED'')))
          (addl_candidates py sync_tag_name addl_txns))"
proof -
  let ?ix = "build_index py main_txns" and ?cs = "addl_candidates py sync_tag_name addl_txns"
  have cnt: "count_of c st = length (filter (\<lambda>a. classify py ?ix a = c) ?cs)" for c
    using main_loop_count [of py dry rem sync_tag_id ?ix init_state ?cs st c] run
    by (cases c) (simp_all add: reconcile_def count_of_def init_state_def)
  have p1: "(classify py ?ix a = No_match) = (\<not> (\<exists>m\<in>set main_txns. key_for py m = key_for py a))" for a
    by (auto simp: classify_build_index)
  have p2: "(classify py ?ix a = Existing_shared)
      = (\<exists>m\<in>set main_txns. key_for py m = key_for py a \<and> upper py (owner m) = (lit ''SHARED''))" for a
    by (auto simp: classify_build_index)
  have p3: "(classify py ?ix a = New_shared)
      = ((\<exists>m\<in>set main_txns. key_for py m = key_for py a) \<and>
         (\<forall>m\<in>set main_txns. key_for py m = key_for py a \<longrightarrow> upper py (owner m) \<noteq> (lit ''SHARED'')))" for a
    by (auto simp: classify_build_index)
  have n: "count_no_match st = length (filter (\<lambda>a. \<not> (\<exists>m\<in>set main_txns. key_for py m = key_for py a)) ?cs)"
    using cnt [of No_match] unfolding count_of_simps p1 .
  have e: "count_synced_existing_shared st = length (filter
          (\<lambda>a. \<exists>m\<in>set main_txns. key_for py m = key_for py a \<and> upper py (owner m) = (lit ''SHARED'')) ?cs)"
    using cnt [of Existing_shared] unfolding count_of_simps p2 .
  have s: "count_synced_new_shared st = length (filter
          (\<lambda>a. (\<exists>m\<in>set main_txns. key_for py m = key_for py a) \<and>
               (\<forall>m\<in>set main_txns. key_for py m = key_for py a \<longrightarrow> upper py (owner m) \<noteq> (lit ''SHARED''))) ?cs)"
    using cnt [of New_shared] unfolding count_of_simps p3 .
  have "length (filter (\<lambda>a. classify py ?ix a = Existing_shared) xs)
        + length (filter (\<lambda>a. classify py ?ix a = New_shared) xs)
        + length (filter (\<lambda>a. classify py ?ix a = No_match) xs) = length xs" for xs
  proof (induction xs)
    case Nil
    then show ?case by simp
  next
    case (Cons a xs)
    then show ?case by (cases "classify py ?ix a") simp_all
  qed
  from this [of ?cs] have "count_synced_existing_shared st + count_synced_new_shared st
      + count_no_match st = length ?cs"
    using cnt [of No_match] cnt [of Existing_shared] cnt [of New_shared]
    by (simp add: count_of_simps)
  with n e s show ?thesis by blast
qed

theorem counters_partition_witness:
  "\<exists>st. reconcile ascii_py False accept_all (lit ''synced'') (lit ''t1'') [ex_p1, ex_p2, ex_p4]
            [ex_a3, ex_a1, ex_a5, ex_a7] = Inr st
      \<and> count_synced_existing_shared st + count_synced_new_shared st + count_no_match st = 3
      \<and> length (addl_candidates ascii_py (lit ''synced'') [ex_a3, ex_a1, ex_a5, ex_a7]) = 3"
proof -
  let ?P = "[ex_p1, ex_p2, ex_p4]" and ?A = "[ex_a3, ex_a1, ex_a5, ex_a7]"
  obtain st where live: "reconcile ascii_py False accept_all (lit ''synced'') (lit ''t1'') ?P ?A = Inr st"
    by (simp add: run_defs ex_defs)
  have len: "length (addl_candidates ascii_py (lit ''synced'') ?A) = 3"
    by (simp add: run_defs ex_defs)
  from counters_partition [OF live] len
  have "count_synced_existing_shared st + count_synced_new_shared st + count_no_match st = 3"
    by simp
  with live len show ?thesis by blast
qed

text \<open>
  Claim C9. A transaction with no merchant, or with a merchant that has no name, has the
  empty string as the merchant component of its key. In every completed run where it is a
  candidate and the main list holds a transaction of that kind with the same date and
  amount, the two keys are equal and the loop treats them as a match: the main-card
  transaction is in the bucket the candidate's round reads, the round counts no miss and
  prints a match, and in a live run that sets owners it sends the ownership mutation for
  that transaction.
\<close>

theorem merchantless_key:
  assumes ex: "ascii_exact py"
    and a: "merchant addl = None \<or> (\<exists>m. merchant addl = Some m \<and> name m = None)"
  shows "key_for py addl = (date addl, amount addl, [])
    \<and> (\<forall>p dry rem sync_tag_name sync_tag_id main_txns addl_txns st before after.
           reconcile py dry rem sync_tag_name sync_tag_id main_txns addl_txns = Inr st
           \<and> addl_candidates py sync_tag_name addl_txns = before @ addl # after
           \<and> p \<in> set main_txns
           \<and> (merchant p = None \<or> (\<exists>m. merchant p = Some m \<and> name m = None))
           \<and> date p = date addl \<and> amount p = amount addl
         \<longrightarrow> key_for py p = key_for py addl
           \<and> (\<exists>st1 st2 c.
               main_loop py dry rem sync_tag_id (build_index py main_txns) init_state before = Inr st1
             \<and> loop_body py dry rem sync_tag_id (build_index py main_txns) st1 addl = Inr st2
             \<and> main_loop py dry rem sync_tag_id (build_index py main_txns) st2 after = Inr st
             \<and> p \<in> set (index_get (build_index py main_txns) (key_for py addl))
             \<and> c = (if \<exists>m\<in>set main_txns. key_for py m = key_for py addl
                           \<and> upper py (owner m) = lit ''SHARED''
                      then Existing_shared else New_shared)
             \<and> out st2 = out st1 @ [classified c addl, if dry then Dry_run_note c else Updated c]
             \<and> count_no_match st2 = count_no_match st1
             \<and> count_synced_existing_shared st2 + count_synced_new_shared st2
                 = count_synced_existing_shared st1 + count_synced_new_shared st1 + 1
             \<and> (c = New_shared \<and> \<not> dry \<longrightarrow> Set_owner_shared (txn_id p) \<in> set (sent st2))))"
proof -
  have k: "key_for py u = (date u, amount u, [])"
    if "merchant u = None \<or> (\<exists>m. merchant u = Some m \<and> name m = None)" for u
    using that ascii_exact_empty [OF ex]
    by (auto simp: key_for_def merchant_name_def py_or_def)
  have e: "key_for py p = key_for py addl"
    if "merchant p = None \<or> (\<exists>m. merchant p = Some m \<and> name m = None)"
      "date p = date addl" "amount p = amount addl" for p
    using that by (simp add: k k [OF a])
  show ?thesis
    using k [OF a] e matched_in_run [where py = py and addl = addl]
    by (intro conjI allI impI) (assumption | blast)+
qed

theorem merchantless_key_witness:
  "ascii_exact ascii_py
   \<and> key_for ascii_py (ex_bare ''a9'' ''INDIVIDUAL'' (Some \<lparr> name = None \<rparr>))
       = (lit ''2024-03-02'', 40, [])
   \<and> key_for ascii_py (ex_bare ''p9'' ''INDIVIDUAL'' None)
       = key_for ascii_py (ex_bare ''a9'' ''INDIVIDUAL'' (Some \<lparr> name = None \<rparr>))
   \<and> (\<exists>st. reconcile ascii_py False accept_all (lit ''synced'') (lit ''t1'')
                [ex_p1, ex_bare ''p9'' ''INDIVIDUAL'' None]
                [ex_bare ''a9'' ''INDIVIDUAL'' (Some \<lparr> name = None \<rparr>)] = Inr st
          \<and> out st = [classified New_shared (ex_bare ''a9'' ''INDIVIDUAL'' (Some \<lparr> name = None \<rparr>)),
                       Updated New_shared]
          \<and> sent st = [Set_owner_shared (lit ''p9''), Update_tags_replace (lit ''a9'') [lit ''t1'']]
          \<and> count_no_match st = 0)"
proof -
  let ?a = "ex_bare ''a9'' ''INDIVIDUAL'' (Some \<lparr> name = None \<rparr>)"
  let ?p = "ex_bare ''p9'' ''INDIVIDUAL'' None"
  have h: "merchant ?a = None \<or> (\<exists>m. merchant ?a = Some m \<and> name m = None)"
    by (simp add: ex_bare_def)
  note mk = merchantless_key [OF ascii_exact_ascii_py h]
  obtain st where run: "reconcile ascii_py False accept_all (lit ''synced'') (lit ''t1'')
      [ex_p1, ?p] [?a] = Inr st"
    and o: "out st = [classified New_shared ?a, Updated New_shared]"
    and s: "sent st = [Set_owner_shared (lit ''p9''), Update_tags_replace (lit ''a9'') [lit ''t1'']]"
    and n: "count_no_match st = 0"
    by (simp add: run_defs ex_defs ex_bare_def)
  have cands: "addl_candidates ascii_py (lit ''synced'') [?a] = [] @ ?a # []"
    by (simp add: run_defs ex_bare_def)
  have q: "?p \<in> set [ex_p1, ?p]"
    "merchant ?p = None \<or> (\<exists>m. merchant ?p = Some m \<and> name m = None)"
    "date ?p = date ?a" "amount ?p = amount ?a"
    by (simp_all add: ex_bare_def)
  from mk have k: "key_for ascii_py ?a = (date ?a, amount ?a, [])" by blast
  from mk run cands q have e: "key_for ascii_py ?p = key_for ascii_py ?a" by blast
  from k have k': "key_for ascii_py ?a = (lit ''2024-03-02'', 40, [])"
    by (simp add: ex_bare_def)
  from ascii_exact_ascii_py k' e run o s n show ?thesis by blast
qed

text \<open>
  Claim C10. \<open>DRY_RUN\<close> is true unless the variable is set to a value whose lower-casing is
  \<open>false\<close>; a run of \<open>main\<close> that completes and has sent a mutation had the variable set to
  such a value.
\<close>

theorem DRY_RUN_default:
  assumes ex: "ascii_exact py"
  shows "DRY_RUN py env = (\<not> (\<exists>v. env (lit ''DRY_RUN'') = Some v \<and> lower py v = lit ''false''))
   \<and> (\<forall>st. main py env src tsrc rem = Some (Inr st) \<and> sent st \<noteq> []
         \<longrightarrow> (\<exists>v. env (lit ''DRY_RUN'') = Some v \<and> lower py v = lit ''false''))"
proof -
  have flag: "DRY_RUN py env
      = (\<not> (\<exists>v. env (lit ''DRY_RUN'') = Some v \<and> lower py v = lit ''false''))"
    using ascii_exact_true [OF ex]
    by (cases "env (lit ''DRY_RUN'')") (simp_all add: DRY_RUN_def getenv_def)
  have "\<not> DRY_RUN py env"
    if run: "main py env src tsrc rem = Some (Inr st)" and s: "sent st \<noteq> []" for st
  proof
    assume dry: "DRY_RUN py env"
    from run obtain nm tid P A where "reconcile py (DRY_RUN py env) rem nm tid P A = Inr st"
      by (auto simp: main_def split: list.splits option.splits sum.splits prod.splits)
    with dry have "sent st = []" by (simp add: reconcile_dry_sent)
    with s show False by simp
  qed
  with flag show ?thesis by blast
qed

theorem DRY_RUN_default_witness:
  "ascii_exact ascii_py
   \<and> DRY_RUN ascii_py Map.empty \<and> DRY_RUN ascii_py [lit ''DRY_RUN'' \<mapsto> []]
   \<and> DRY_RUN ascii_py [lit ''DRY_RUN'' \<mapsto> lit ''flase'']
   \<and> DRY_RUN ascii_py [lit ''DRY_RUN'' \<mapsto> lit ''0'']
   \<and> DRY_RUN ascii_py [lit ''DRY_RUN'' \<mapsto> lit ''true'']
   \<and> \<not> DRY_RUN ascii_py [lit ''DRY_RUN'' \<mapsto> lit ''false'']
   \<and> \<not> DRY_RUN ascii_py [lit ''DRY_RUN'' \<mapsto> lit ''False'']
   \<and> \<not> DRY_RUN ascii_py [lit ''DRY_RUN'' \<mapsto> lit ''FALSE'']
   \<and> (\<exists>st. main ascii_py (ex_env ''False'') ex_source ex_tag_source accept_all = Some (Inr st)
          \<and> sent st = [Update_tags_replace (lit ''r2'') [lit ''t1'']])
   \<and> (\<exists>st. main ascii_py (ex_env ''no'') ex_source ex_tag_source accept_all = Some (Inr st)
          \<and> sent st = [])"
proof -
  note dd = DRY_RUN_default [OF ascii_exact_ascii_py]
  have flags: "DRY_RUN ascii_py Map.empty \<and> DRY_RUN ascii_py [lit ''DRY_RUN'' \<mapsto> []]
   \<and> DRY_RUN ascii_py [lit ''DRY_RUN'' \<mapsto> lit ''flase'']
   \<and> DRY_RUN ascii_py [lit ''DRY_RUN'' \<mapsto> lit ''0'']
   \<and> DRY_RUN ascii_py [lit ''DRY_RUN'' \<mapsto> lit ''true'']
   \<and> \<not> DRY_RUN ascii_py [lit ''DRY_RUN'' \<mapsto> lit ''false'']
   \<and> \<not> DRY_RUN ascii_py [lit ''DRY_RUN'' \<mapsto> lit ''False'']
   \<and> \<not> DRY_RUN ascii_py [lit ''DRY_RUN'' \<mapsto> lit ''FALSE'']"
    using dd [of Map.empty] dd [of "[lit ''DRY_RUN'' \<mapsto> []]"]
      dd [of "[lit ''DRY_RUN'' \<mapsto> lit ''flase'']"] dd [of "[lit ''DRY_RUN'' \<mapsto> lit ''0'']"]
      dd [of "[lit ''DRY_RUN'' \<mapsto> lit ''true'']"] dd [of "[lit ''DRY_RUN'' \<mapsto> lit ''false'']"]
      dd [of "[lit ''DRY_RUN'' \<mapsto> lit ''False'']"] dd [of "[lit ''DRY_RUN'' \<mapsto> lit ''FALSE'']"]
    by (simp add: py_defs)
  have tag: "ensure_tag_id ascii_py ex_tag_source (lit ''synced'') = Inr (lit ''t1'')"
    by (simp add: ensure_tag_id_def ex_tag_source_def ex_tag_travel_def ex_tag_synced_def py_defs)
  have env: "missing (ex_env flag) = []" "MAIN_ACCOUNT_ID (ex_env flag) = Some (lit ''main'')"
    "ADDL_ACCOUNT_ID (ex_env flag) = Some (lit ''addl'')"
    "SYNC_TAG_NAME (ex_env flag) = lit ''synced''" for flag
    by (simp_all add: missing_def MAIN_ACCOUNT_ID_def ADDL_ACCOUNT_ID_def API_TOKEN_def
        SYNC_TAG_NAME_def getenv_def ex_env_def lit_eq_iff lit_Nil [symmetric])
  have d1: "\<not> DRY_RUN ascii_py (ex_env ''False'')" and d2: "DRY_RUN ascii_py (ex_env ''no'')"
    by (simp_all add: DRY_RUN_def getenv_def ex_env_def py_defs)
  have live: "\<exists>st. main ascii_py (ex_env ''False'') ex_source ex_tag_source accept_all = Some (Inr st)
          \<and> sent st = [Update_tags_replace (lit ''r2'') [lit ''t1'']]"
    by (simp add: main_def env fetch_ex_source tag d1 lit_eq_iff)
       (simp add: run_defs normalized_def ex_raw_def accept_all_def)
  obtain st where dry: "main ascii_py (ex_env ''no'') ex_source ex_tag_source accept_all
      = Some (Inr st)"
    by (simp add: main_def env fetch_ex_source tag d2 lit_eq_iff)
       (simp add: run_defs normalized_def ex_raw_def accept_all_def)
  have "sent st = []"
  proof (rule ccontr)
    assume "sent st \<noteq> []"
    with dd [of "ex_env ''no''" ex_source ex_tag_source accept_all] dry
    have "\<not> DRY_RUN ascii_py (ex_env ''no'')" by blast
    with d2 show False by simp
  qed
  with ascii_exact_ascii_py flags live dry show ?thesis by blast
qed

end
